theory Spec2Isabelle
  imports Main
begin

section \<open>Type.hpp: named type hierarchies\<close>

text \<open>
  A \<open>TypeDef\<close> object holds a name and a pointer to the parent \<open>TypeDef\<close>, or
  \<open>nullptr\<close> when it has no parent. Both members are const and only set by the
  constructor, so a \<open>TypeDef\<close> is the finite chain of its ancestors.
\<close>

datatype TypeDef = TypeDef (name: string) (parent: "TypeDef option")

text \<open>
  \<open>bool isSameOrSubtypeOf( const TypeDef* type ) const\<close>: the loop walks \<open>type\<close> up
  its parent pointers and compares each name with the name of \<open>this\<close>.
\<close>

fun isSameOrSubtypeOf :: "TypeDef \<Rightarrow> TypeDef option \<Rightarrow> bool" where
  "isSameOrSubtypeOf this None = False"
| "isSameOrSubtypeOf this (Some (TypeDef n p)) =
     (if n = name this then True else isSameOrSubtypeOf this p)"

text \<open>The objects met when following the parent pointers from a \<open>TypeDef*\<close>.\<close>

fun chain :: "TypeDef option \<Rightarrow> TypeDef list" where
  "chain None = []"
| "chain (Some (TypeDef n p)) = TypeDef n p # chain p"

text \<open>
  Within the hierarchies of two types no two distinct \<open>TypeDef\<close> objects carry the same
  name: the naming discipline under which a name stands for one type.
\<close>

definition names_identify :: "TypeDef \<Rightarrow> TypeDef \<Rightarrow> bool" where
  "names_identify E R = distinct (map name (remdups (chain (Some E) @ chain (Some R))))"

section \<open>Message.hpp: messages and the queue of emitted messages\<close>

text \<open>
  A C++ message class: its identity, its base class (none for \<open>Message\<close> itself; the
  message classes form a tree under \<open>Message\<close>) and the \<open>TypeDef\<close> its static
  \<open>Type()\<close> returns. The \<open>TypeDef\<close> is what the programmer declared for the class;
  nothing ties its parent chain to the base classes.
\<close>

datatype cpp_class = Cpp_class (class_id: nat) (base: "cpp_class option") (class_Type: TypeDef)

text \<open>The class itself and its base classes, nearest first.\<close>

fun class_chain :: "cpp_class option \<Rightarrow> cpp_class list" where
  "class_chain None = []"
| "class_chain (Some (Cpp_class i b t)) = Cpp_class i b t # class_chain b"

text \<open>
  A message object has an identity and a most-derived class, the one run-time type
  information reports. A \<open>Message::Ptr\<close> may be null: \<open>Message option\<close>.
\<close>

record Message =
  msg_id :: nat
  msg_class :: cpp_class

text \<open>\<open>struct Entry\<close>: a message and a \<open>Link*\<close> (an address, or \<open>nullptr\<close>).\<close>

record Entry =
  msg :: "Message option"
  link :: "nat option"

text \<open>
  \<open>class Emitted\<close>: \<open>m_queue\<close> is a \<open>std::list\<close>, written front first; \<open>m_notify\<close> is
  the notifier callback, identified by a number, \<open>None\<close> when empty.
\<close>

record Emitted =
  m_queue :: "Entry list"
  m_notify :: "nat option"

datatype error = runtime_error string | dangling_Link nat

section \<open>Slot.hpp, Signal.hpp, Link.hpp: the objects\<close>

text \<open>
  \<open>AnySlot::Function\<close>: the two function objects a \<open>Slot<TMsg,TObj,TMethod>\<close> binds in
  its constructor, \<open>boost::bind(&MyType::dynamicCastFunction, obj, _1, _2)\<close> and
  \<open>boost::bind(&MyType::staticCastFunction, obj, _1, _2)\<close>. The arguments are the
  template parameters \<open>TMsg\<close> (a message class) and \<open>TMethod\<close> (a number naming the
  method), and the bound \<open>obj\<close> pointer, which may be null.
\<close>

datatype Function =
    Bind_dynamicCastFunction cpp_class nat "nat option"
  | Bind_staticCastFunction cpp_class nat "nat option"

text \<open>
  \<open>class AnySignal\<close>. \<open>m_links\<close> is a \<open>std::map<AnySlot*,Link*>\<close>: an association
  list from slot addresses to link addresses, iterated from the front, kept in key
  order by \<open>map_assign\<close>.
\<close>

record AnySignal =
  m_links :: "(nat \<times> nat) list"
  m_msgType :: TypeDef
  m_name :: string

text \<open>
  \<open>class AnySlot\<close>; its members carry the suffix \<open>_slot\<close> where \<open>AnySignal\<close> has a
  member of the same name. \<open>m_links_slot\<close> is a \<open>std::set<Link*>\<close>.
\<close>

record AnySlot =
  m_msgType_slot :: TypeDef
  m_dynamicCastFunction :: Function
  m_staticCastFunction :: Function
  m_links_slot :: "nat set"
  m_name_slot :: string

record Link =
  m_signal :: nat
  m_slot :: nat
  m_slotFunction :: Function

text \<open>
  One call of a slot method \<open>(obj->*TMethod)(m, link)\<close>: the method, the object, the
  message and the link it came through. Every call is recorded in the log \<open>invoked\<close>
  before the body of the method runs.
\<close>

datatype Invocation = Invocation nat nat Message "nat option"

text \<open>
  The objects of a program. Signals and slots belong to the application and are
  addressed by number; every address denotes an object. \<open>Link\<close> objects are created by
  \<open>new\<close> and destroyed by \<open>delete\<close>: \<open>links\<close> holds the live ones, and \<open>next_link\<close> is
  the address the next \<open>new Link\<close> returns. \<open>emitted\<close>, \<open>m_signalMap\<close> and \<open>m_slotMap\<close>
  are the static members \<open>Message::emitted\<close>, \<open>AnySignal::m_signalMap\<close> and
  \<open>AnySlot::m_slotMap\<close>. \<open>notified\<close> logs the calls of the notifier. \<open>app\<close> holds the
  variables of the application's own objects, which only the bodies of slot methods
  read and write.
\<close>

record MPO =
  signals :: "nat \<Rightarrow> AnySignal"
  slots :: "nat \<Rightarrow> AnySlot"
  links :: "nat \<rightharpoonup> Link"
  next_link :: nat
  emitted :: Emitted
  m_signalMap :: "string \<rightharpoonup> nat"
  m_slotMap :: "string \<rightharpoonup> nat"
  invoked :: "Invocation list"
  notified :: "nat list"
  app :: "nat \<Rightarrow> int"

text \<open>
  The body of the slot methods is application code: given the method, the object, the
  message and the link, it changes the program state in any way, through the library
  (it may emit, connect, disconnect, destroy links) or not, or throws.
\<close>

type_synonym method_body = "nat \<Rightarrow> nat \<Rightarrow> Message \<Rightarrow> nat option \<Rightarrow> MPO \<Rightarrow> error + MPO"

text \<open>
  A \<open>const std::string&\<close> argument: a reference to a string outside the signals and
  slots (a literal, a temporary, a variable of the caller), or to the \<open>m_name\<close> of a
  signal or of a slot, which is what \<open>name()\<close> returns. Reading the reference gives the
  string the object holds at that moment.
\<close>

datatype string_ref = Temporary string | Name_of_signal nat | Name_of_slot nat

definition deref :: "string_ref \<Rightarrow> MPO \<Rightarrow> string" where
  "deref r s =
     (case r of
        Temporary n \<Rightarrow> n
      | Name_of_signal a \<Rightarrow> m_name (signals s a)
      | Name_of_slot a \<Rightarrow> m_name_slot (slots s a))"

subsection \<open>\<open>std::map\<close> operations on \<open>m_links\<close>\<close>

text \<open>\<open>m[k] = v\<close>: replaces the value of an existing key, or inserts in key order.\<close>

fun map_assign :: "nat \<Rightarrow> 'v \<Rightarrow> (nat \<times> 'v) list \<Rightarrow> (nat \<times> 'v) list" where
  "map_assign k v [] = [(k, v)]"
| "map_assign k v ((k', v') # xs) =
     (if k < k' then (k, v) # (k', v') # xs
      else if k = k' then (k, v) # xs
      else (k', v') # map_assign k v xs)"

text \<open>\<open>m.erase(k)\<close>: returns the number of elements removed, 0 or 1.\<close>

definition map_erase :: "nat \<Rightarrow> (nat \<times> 'v) list \<Rightarrow> nat \<times> (nat \<times> 'v) list" where
  "map_erase k xs =
     ((if map_of xs k = None then 0 else 1), filter (\<lambda>it. fst it \<noteq> k) xs)"

subsection \<open>\<open>Message::Emitted\<close>\<close>

definition Emitted_empty :: "Emitted \<Rightarrow> bool" where
  "Emitted_empty q = (m_queue q = [])"

text \<open>\<open>add\<close>: \<open>push_front\<close>, then the notifier is called if one is set.\<close>

definition Emitted_add :: "Entry \<Rightarrow> MPO \<Rightarrow> MPO" where
  "Emitted_add entry s =
     (let s1 = s\<lparr>emitted := (emitted s)\<lparr>m_queue := entry # m_queue (emitted s)\<rparr>\<rparr>
      in case m_notify (emitted s1) of
           None \<Rightarrow> s1
         | Some f \<Rightarrow> s1\<lparr>notified := notified s1 @ [f]\<rparr>)"

text \<open>\<open>get\<close>: throws on an empty queue, else takes \<open>back()\<close> and does \<open>pop_back()\<close>.\<close>

definition Emitted_get :: "Emitted \<Rightarrow> error + (Entry \<times> Emitted)" where
  "Emitted_get q =
     (if Emitted_empty q
      then Inl (runtime_error ''Message::Emitted::get called on empty Message queue'')
      else Inr (last (m_queue q), q\<lparr>m_queue := butlast (m_queue q)\<rparr>))"

text \<open>\<open>erase\<close>: removes every entry whose link is the given pointer.\<close>

definition Emitted_erase :: "nat option \<Rightarrow> Emitted \<Rightarrow> Emitted" where
  "Emitted_erase l q = q\<lparr>m_queue := filter (\<lambda>it. link it \<noteq> l) (m_queue q)\<rparr>"

definition Emitted_setMessageNotifier :: "nat option \<Rightarrow> Emitted \<Rightarrow> Emitted" where
  "Emitted_setMessageNotifier messageNotifier q = q\<lparr>m_notify := messageNotifier\<rparr>"

text \<open>The entries in the order in which repeated calls of \<open>get\<close> return them.\<close>

function get_all :: "Emitted \<Rightarrow> Entry list" where
  "get_all q = (case Emitted_get q of Inl e \<Rightarrow> [] | Inr (entry, q') \<Rightarrow> entry # get_all q')"
  by pat_completeness auto
termination
  by (relation "measure (\<lambda>q. length (m_queue q))")
     (auto simp: Emitted_get_def Emitted_empty_def split: if_splits)

declare get_all.simps [simp del]

subsection \<open>\<open>Slot<TMsg,TObj,TMethod>\<close>\<close>

text \<open>
  \<open>boost::dynamic_pointer_cast<TMsg>(msg)\<close>: null for a null pointer, and for a
  message whose most-derived class is neither the class \<open>TMsg\<close> nor derived from it.
  The test is on the C++ classes; no \<open>TypeDef\<close> takes part in it.
\<close>

definition dynamic_pointer_cast :: "cpp_class \<Rightarrow> Message option \<Rightarrow> Message option" where
  "dynamic_pointer_cast TMsg p =
     (case p of
        None \<Rightarrow> None
      | Some m \<Rightarrow> if TMsg \<in> set (class_chain (Some (msg_class m))) then Some m else None)"

text \<open>
  The call \<open>(obj->*TMethod)(m, link)\<close>: it is logged, then the body of the method runs.
\<close>

definition TMethod ::
  "method_body \<Rightarrow> nat \<Rightarrow> nat \<Rightarrow> Message \<Rightarrow> nat option \<Rightarrow> MPO \<Rightarrow> error + MPO" where
  "TMethod body f obj m l s = body f obj m l (s\<lparr>invoked := invoked s @ [Invocation f obj m l]\<rparr>)"

definition dynamicCastFunction ::
  "method_body \<Rightarrow> cpp_class \<Rightarrow> nat \<Rightarrow> nat option \<Rightarrow> Message option \<Rightarrow> nat option \<Rightarrow> MPO
     \<Rightarrow> error + MPO" where
  "dynamicCastFunction body TMsg f obj p l s =
     (case dynamic_pointer_cast TMsg p of
        None \<Rightarrow> Inr s
      | Some m \<Rightarrow> (case obj of None \<Rightarrow> Inr s | Some ob \<Rightarrow> TMethod body f ob m l s))"

definition staticCastFunction ::
  "method_body \<Rightarrow> cpp_class \<Rightarrow> nat \<Rightarrow> nat option \<Rightarrow> Message option \<Rightarrow> nat option \<Rightarrow> MPO
     \<Rightarrow> error + MPO" where
  "staticCastFunction body TMsg f obj p l s =
     (case p of
        None \<Rightarrow> Inr s
      | Some m \<Rightarrow> (case obj of None \<Rightarrow> Inr s | Some ob \<Rightarrow> TMethod body f ob m l s))"

text \<open>Calling a bound function object with a message and a link pointer.\<close>

fun call ::
  "method_body \<Rightarrow> Function \<Rightarrow> Message option \<Rightarrow> nat option \<Rightarrow> MPO \<Rightarrow> error + MPO" where
  "call body (Bind_dynamicCastFunction TMsg f obj) p l s =
     dynamicCastFunction body TMsg f obj p l s"
| "call body (Bind_staticCastFunction TMsg f obj) p l s =
     staticCastFunction body TMsg f obj p l s"

text \<open>
  The constructor \<open>Slot( TObj* obj )\<close> of \<open>Slot<TMsg,TObj,TMethod>\<close>; it passes
  \<open>TMsg::Type()\<close> to the constructor of \<open>AnySlot\<close>.
\<close>

definition Slot :: "cpp_class \<Rightarrow> nat \<Rightarrow> nat option \<Rightarrow> AnySlot" where
  "Slot TMsg f obj =
     \<lparr>m_msgType_slot = class_Type TMsg,
      m_dynamicCastFunction = Bind_dynamicCastFunction TMsg f obj,
      m_staticCastFunction = Bind_staticCastFunction TMsg f obj,
      m_links_slot = {},
      m_name_slot = []\<rparr>"

text \<open>The constructor \<open>Signal()\<close> of \<open>Signal<TMsg>\<close>, passing \<open>TMsg::Type()\<close>.\<close>

definition Signal :: "cpp_class \<Rightarrow> AnySignal" where
  "Signal TMsg = \<lparr>m_links = [], m_msgType = class_Type TMsg, m_name = []\<rparr>"

definition getDynamicCastFunction :: "AnySlot \<Rightarrow> Function" where
  "getDynamicCastFunction sl = m_dynamicCastFunction sl"

definition getStaticCastFunction :: "AnySlot \<Rightarrow> Function" where
  "getStaticCastFunction sl = m_staticCastFunction sl"


definition AnySlot_connect :: "nat \<Rightarrow> nat \<Rightarrow> MPO \<Rightarrow> MPO" where
  "AnySlot_connect this l s =
     s\<lparr>slots := (slots s)(this := (slots s this)
         \<lparr>m_links_slot := insert l (m_links_slot (slots s this))\<rparr>)\<rparr>"

definition AnySlot_disconnect :: "nat \<Rightarrow> nat \<Rightarrow> MPO \<Rightarrow> MPO" where
  "AnySlot_disconnect this l s =
     s\<lparr>slots := (slots s)(this := (slots s this)
         \<lparr>m_links_slot := m_links_slot (slots s this) - {l}\<rparr>)\<rparr>"

definition AnySlot_unregisterName :: "nat \<Rightarrow> MPO \<Rightarrow> MPO" where
  "AnySlot_unregisterName this s =
     s\<lparr>m_slotMap := (m_slotMap s)(m_name_slot (slots s this) := None),
       slots := (slots s)(this := (slots s this)\<lparr>m_name_slot := []\<rparr>)\<rparr>"

text \<open>
  \<open>void setName( const std::string &name )\<close>: \<open>unregisterName()\<close> runs first, and
  the reference \<open>name\<close> is read after it, for the test and for the assignment.
\<close>

definition AnySlot_setName :: "nat \<Rightarrow> string_ref \<Rightarrow> MPO \<Rightarrow> MPO" where
  "AnySlot_setName this n s =
     (let s1 = AnySlot_unregisterName this s
      in if deref n s1 \<noteq> []
         then s1\<lparr>slots := (slots s1)(this := (slots s1 this)\<lparr>m_name_slot := deref n s1\<rparr>),
                 m_slotMap := (m_slotMap s1)(deref n s1 \<mapsto> this)\<rparr>
         else s1)"

definition AnySlot_get :: "string \<Rightarrow> MPO \<Rightarrow> nat option" where
  "AnySlot_get n s = m_slotMap s n"

subsection \<open>\<open>AnySignal\<close>\<close>

definition AnySignal_unregisterName :: "nat \<Rightarrow> MPO \<Rightarrow> MPO" where
  "AnySignal_unregisterName this s =
     s\<lparr>m_signalMap := (m_signalMap s)(m_name (signals s this) := None),
       signals := (signals s)(this := (signals s this)\<lparr>m_name := []\<rparr>)\<rparr>"

text \<open>
  \<open>void setName( const std::string &name )\<close>: \<open>unregisterName()\<close> runs first, and
  the reference \<open>name\<close> is read after it, for the test and for the assignment.
\<close>

definition AnySignal_setName :: "nat \<Rightarrow> string_ref \<Rightarrow> MPO \<Rightarrow> MPO" where
  "AnySignal_setName this n s =
     (let s1 = AnySignal_unregisterName this s
      in if deref n s1 \<noteq> []
         then s1\<lparr>signals := (signals s1)(this := (signals s1 this)\<lparr>m_name := deref n s1\<rparr>),
                 m_signalMap := (m_signalMap s1)(deref n s1 \<mapsto> this)\<rparr>
         else s1)"

definition AnySignal_get :: "string \<Rightarrow> MPO \<Rightarrow> nat option" where
  "AnySignal_get n s = m_signalMap s n"

text \<open>
  \<open>emit\<close>: one entry per element of \<open>m_links\<close>, in the order of the map, each with the
  same message.
\<close>

definition AnySignal_emit :: "nat \<Rightarrow> Message option \<Rightarrow> MPO \<Rightarrow> MPO" where
  "AnySignal_emit this p s =
     foldl (\<lambda>s' it. Emitted_add \<lparr>msg = p, link = Some (snd it)\<rparr> s') s
       (m_links (signals s this))"

definition AnySignal_connect :: "nat \<Rightarrow> nat \<Rightarrow> nat \<Rightarrow> MPO \<Rightarrow> MPO" where
  "AnySignal_connect this slot l s =
     s\<lparr>signals := (signals s)(this := (signals s this)
         \<lparr>m_links := map_assign slot l (m_links (signals s this))\<rparr>)\<rparr>"

definition AnySignal_disconnect :: "nat \<Rightarrow> nat \<Rightarrow> MPO \<Rightarrow> bool \<times> MPO" where
  "AnySignal_disconnect this slot s =
     (let r = map_erase slot (m_links (signals s this))
      in (fst r = 1,
          s\<lparr>signals := (signals s)(this := (signals s this)\<lparr>m_links := snd r\<rparr>)\<rparr>))"

definition AnySignal_isConnected :: "nat \<Rightarrow> nat \<Rightarrow> MPO \<Rightarrow> bool" where
  "AnySignal_isConnected this slot s = (map_of (m_links (signals s this)) slot \<noteq> None)"

subsection \<open>\<open>Link\<close>\<close>

text \<open>
  The constructor \<open>Link( AnySignal& signal, AnySlot& slot, bool forceStatic )\<close>: it
  picks the slot function performing a static or a dynamic cast.
\<close>

definition Link_ctor :: "nat \<Rightarrow> nat \<Rightarrow> bool \<Rightarrow> MPO \<Rightarrow> Link" where
  "Link_ctor signal slot forceStatic s =
     \<lparr>m_signal = signal,
      m_slot = slot,
      m_slotFunction =
        (if forceStatic \<or>
            isSameOrSubtypeOf (m_msgType (signals s signal))
              (Some (m_msgType_slot (slots s slot)))
         then getStaticCastFunction (slots s slot)
         else getDynamicCastFunction (slots s slot))\<rparr>"

text \<open>\<open>new Link( signal, slot, forceStatic )\<close>: the address and the new program state.\<close>

definition new_Link :: "nat \<Rightarrow> nat \<Rightarrow> bool \<Rightarrow> MPO \<Rightarrow> nat \<times> MPO" where
  "new_Link signal slot forceStatic s =
     (next_link s,
      s\<lparr>links := (links s)(next_link s \<mapsto> Link_ctor signal slot forceStatic s),
        next_link := Suc (next_link s)\<rparr>)"

text \<open>
  \<open>static bool connect( AnySignal* signal, AnySlot* slot, bool forceStatic )\<close>; the
  pointer arguments are \<open>None\<close> for \<open>nullptr\<close>.
\<close>

definition Link_connect :: "nat option \<Rightarrow> nat option \<Rightarrow> bool \<Rightarrow> MPO \<Rightarrow> bool \<times> MPO" where
  "Link_connect signal slot forceStatic s =
     (case signal of
        None \<Rightarrow> (False, s)
      | Some sg \<Rightarrow>
          (case slot of
             None \<Rightarrow> (False, s)
           | Some sl \<Rightarrow>
               if \<not> AnySignal_isConnected sg sl s
               then (let (l, s1) = new_Link sg sl forceStatic s;
                         s2 = AnySignal_connect sg sl l s1;
                         s3 = AnySlot_connect sl l s2
                     in (True, s3))
               else (True, s)))"

definition Link_connect_named :: "string \<Rightarrow> string \<Rightarrow> bool \<Rightarrow> MPO \<Rightarrow> bool \<times> MPO" where
  "Link_connect_named signalName slotName forceStatic s =
     Link_connect (AnySignal_get signalName s) (AnySlot_get slotName s) forceStatic s"

text \<open>\<open>static bool disconnect( AnySignal* signal, AnySlot* slot )\<close>.\<close>

definition Link_disconnect :: "nat option \<Rightarrow> nat option \<Rightarrow> MPO \<Rightarrow> bool \<times> MPO" where
  "Link_disconnect signal slot s =
     (case signal of
        None \<Rightarrow> (False, s)
      | Some sg \<Rightarrow>
          (case slot of
             None \<Rightarrow> (False, s)
           | Some sl \<Rightarrow> AnySignal_disconnect sg sl s))"

definition Link_disconnect_named :: "string \<Rightarrow> string \<Rightarrow> MPO \<Rightarrow> bool \<times> MPO" where
  "Link_disconnect_named signalName slotName s =
     Link_disconnect (AnySignal_get signalName s) (AnySlot_get slotName s) s"

text \<open>\<open>static bool isConnected( AnySignal* signal, AnySlot* slot )\<close>.\<close>

definition Link_isConnected :: "nat option \<Rightarrow> nat option \<Rightarrow> MPO \<Rightarrow> bool" where
  "Link_isConnected signal slot s =
     (case signal of
        None \<Rightarrow> False
      | Some sg \<Rightarrow> (case slot of None \<Rightarrow> False | Some sl \<Rightarrow> AnySignal_isConnected sg sl s))"

definition Link_isConnected_named :: "string \<Rightarrow> string \<Rightarrow> MPO \<Rightarrow> bool" where
  "Link_isConnected_named signalName slotName s =
     Link_isConnected (AnySignal_get signalName s) (AnySlot_get slotName s) s"

text \<open>
  \<open>void forward( Message::Ptr msg )\<close> on the link at address \<open>this\<close>. Calling it
  through a pointer to a deleted link is an error of the program.
\<close>

definition Link_forward :: "method_body \<Rightarrow> nat \<Rightarrow> Message option \<Rightarrow> MPO \<Rightarrow> error + MPO" where
  "Link_forward body this p s =
     (case links s this of
        None \<Rightarrow> Inl (dangling_Link this)
      | Some L \<Rightarrow> call body (m_slotFunction L) p (Some this) s)"

text \<open>
  \<open>delete\<close> of the link at address \<open>this\<close>: the destructor \<open>~Link()\<close> erases the link
  from the queue, from its signal and from its slot; then the object is gone.
\<close>

definition Link_dtor :: "nat \<Rightarrow> MPO \<Rightarrow> error + MPO" where
  "Link_dtor this s =
     (case links s this of
        None \<Rightarrow> Inl (dangling_Link this)
      | Some L \<Rightarrow>
          (let s1 = s\<lparr>emitted := Emitted_erase (Some this) (emitted s)\<rparr>;
               s2 = snd (AnySignal_disconnect (m_signal L) (m_slot L) s1);
               s3 = AnySlot_disconnect (m_slot L) this s2
           in Inr (s3\<lparr>links := (links s3)(this := None)\<rparr>)))"

subsection \<open>\<open>Message::Emitted::processNext\<close> and the driver loop\<close>

definition Emitted_processNext :: "method_body \<Rightarrow> MPO \<Rightarrow> error + (bool \<times> MPO)" where
  "Emitted_processNext body s =
     (if Emitted_empty (emitted s) then Inr (False, s)
      else
        (case Emitted_get (emitted s) of
           Inl e \<Rightarrow> Inl e
         | Inr (entry, q) \<Rightarrow>
             (case link entry of
                None \<Rightarrow> Inr (\<not> Emitted_empty q, s\<lparr>emitted := q\<rparr>)
              | Some l \<Rightarrow>
                  (case Link_forward body l (msg entry) (s\<lparr>emitted := q\<rparr>) of
                     Inl e \<Rightarrow> Inl e
                   | Inr s' \<Rightarrow> Inr (\<not> Emitted_empty (emitted s'), s')))))"

definition Message_processNext :: "method_body \<Rightarrow> MPO \<Rightarrow> error + (bool \<times> MPO)" where
  "Message_processNext body s = Emitted_processNext body s"

text \<open>
  The driver loop \<open>while( Message::processNext() );\<close>. A slot method may emit, so the
  loop need not end: \<open>None\<close> is the loop that runs forever, \<open>Some (Inl e)\<close> the loop left
  by an exception, \<open>Some (Inr s')\<close> the loop that ends in the state \<open>s'\<close>.
\<close>

partial_function (option) drain :: "method_body \<Rightarrow> MPO \<Rightarrow> (error + MPO) option" where
  "drain body s =
     (case Message_processNext body s of
        Inl e \<Rightarrow> Some (Inl e)
      | Inr r \<Rightarrow> if fst r then drain body (snd r) else Some (Inr (snd r)))"

section \<open>Vocabulary of the properties\<close>

text \<open>
  A function object is the unchecked one when it is the binding of
  \<open>staticCastFunction\<close>. A slot object is as its constructor left it when its two
  function objects are the two bindings the constructor of \<open>Slot\<close> makes for the
  slot's message type; \<open>setName\<close>, \<open>connect\<close> and \<open>disconnect\<close> keep it so.
\<close>

definition is_staticCast :: "Function \<Rightarrow> bool" where
  "is_staticCast fn =
     (case fn of
        Bind_staticCastFunction T f obj \<Rightarrow> True
      | Bind_dynamicCastFunction T f obj \<Rightarrow> False)"

definition constructed :: "AnySlot \<Rightarrow> bool" where
  "constructed sl =
     (case m_dynamicCastFunction sl of
        Bind_staticCastFunction T f obj \<Rightarrow> False
      | Bind_dynamicCastFunction T f obj \<Rightarrow>
          class_Type T = m_msgType_slot sl
          \<and> m_staticCastFunction sl = Bind_staticCastFunction T f obj)"

text \<open>
  \<open>A\<close> is a strict ancestor of \<open>B\<close> when it is met on the way up from the parent of
  \<open>B\<close>; two types are unrelated when neither is the other nor an ancestor of it.
\<close>

definition strict_ancestor :: "TypeDef \<Rightarrow> TypeDef \<Rightarrow> bool" where
  "strict_ancestor A B = (A \<in> set (chain (parent B)))"

definition unrelated :: "TypeDef \<Rightarrow> TypeDef \<Rightarrow> bool" where
  "unrelated A B = (A \<notin> set (chain (Some B)) \<and> B \<notin> set (chain (Some A)))"

text \<open>
  A \<open>Link*\<close> is usable when it is null or points to a live link; the queue is in order
  when the link pointer of every entry is.
\<close>

definition live :: "MPO \<Rightarrow> nat option \<Rightarrow> bool" where
  "live s p = (case p of None \<Rightarrow> True | Some l \<Rightarrow> links s l \<noteq> None)"

definition queue_ok :: "MPO \<Rightarrow> bool" where
  "queue_ok s = list_all (\<lambda>e. live s (link e)) (m_queue (emitted s))"

text \<open>
  The program state is consistent when the queue is in order, every entry of a signal's
  map points to a live link that names this signal and the entry's slot, and the
  address of every live link is below \<open>next_link\<close>.
\<close>

definition consistent :: "MPO \<Rightarrow> bool" where
  "consistent s =
     (queue_ok s
      \<and> (\<forall>sg. \<forall>it \<in> set (m_links (signals s sg)).
            \<exists>L. links s (snd it) = Some L \<and> m_signal L = sg \<and> m_slot L = fst it)
      \<and> (\<forall>l \<in> dom (links s). l < next_link s))"

text \<open>
  The body of a slot method that does nothing to the program state, like the methods
  \<open>processMsgM\<close>, \<open>processMsgA\<close> and \<open>processMsgB\<close> of main.cpp.
\<close>

definition no_effect :: method_body where
  "no_effect f ob m k s = Inr s"

text \<open>
  The slot-method calls that forwarding an entry causes when the bodies do nothing:
  what \<open>Link::forward\<close> appends to an empty log. \<open>through l\<close> holds of the calls that
  received the link \<open>l\<close>.
\<close>

definition handled :: "MPO \<Rightarrow> Entry \<Rightarrow> Invocation list" where
  "handled s e =
     (case link e of
        None \<Rightarrow> []
      | Some l \<Rightarrow>
          (case Link_forward no_effect l (msg e) (s\<lparr>invoked := []\<rparr>) of
             Inl err \<Rightarrow> []
           | Inr s' \<Rightarrow> invoked s'))"

fun through :: "nat \<Rightarrow> Invocation \<Rightarrow> bool" where
  "through l (Invocation f ob m k) = (k = Some l)"

section \<open>An example program\<close>

text \<open>
  The classes \<open>Message\<close>, \<open>Base\<close>, \<open>Mid\<close>, \<open>Leaf\<close> and \<open>Other\<close>, each with the \<open>TypeDef\<close>
  declared for it as Type.hpp prescribes.
\<close>

definition Message_Type :: TypeDef where
  "Message_Type = TypeDef ''Message'' None"

definition Base :: TypeDef where
  "Base = TypeDef ''Base'' (Some Message_Type)"

definition Mid :: TypeDef where
  "Mid = TypeDef ''Mid'' (Some Base)"

definition Leaf :: TypeDef where
  "Leaf = TypeDef ''Leaf'' (Some Mid)"

definition Other :: TypeDef where
  "Other = TypeDef ''Other'' (Some Message_Type)"

definition Message_class :: cpp_class where
  "Message_class = Cpp_class 0 None Message_Type"

definition Base_class :: cpp_class where
  "Base_class = Cpp_class 1 (Some Message_class) Base"

definition Mid_class :: cpp_class where
  "Mid_class = Cpp_class 2 (Some Base_class) Mid"

definition Leaf_class :: cpp_class where
  "Leaf_class = Cpp_class 3 (Some Mid_class) Leaf"

definition Other_class :: cpp_class where
  "Other_class = Cpp_class 4 (Some Message_class) Other"

text \<open>
  A program with a signal and a slot of each class right after their construction: the
  signal and the slot at address 0 are declared for \<open>Base\<close>, at 1 for \<open>Mid\<close>, at 2 for
  \<open>Leaf\<close>, at every other address for \<open>Other\<close>. The slot at address \<open>a\<close> is bound to the
  method \<open>a\<close> of the object \<open>a\<close>, except the slot at address 4, constructed with a null
  object.
\<close>

definition hierarchy :: "nat \<Rightarrow> cpp_class" where
  "hierarchy a =
     (if a = 0 then Base_class else if a = 1 then Mid_class
      else if a = 2 then Leaf_class else Other_class)"

definition startup :: MPO where
  "startup =
     \<lparr>signals = (\<lambda>a. Signal (hierarchy a)),
      slots = (\<lambda>a. Slot (hierarchy a) a (if a = 4 then None else Some a)),
      links = Map.empty,
      next_link = 0,
      emitted = \<lparr>m_queue = [], m_notify = None\<rparr>,
      m_signalMap = Map.empty,
      m_slotMap = Map.empty,
      invoked = [],
      notified = [],
      app = (\<lambda>v. 0)\<rparr>"

text \<open>Messages of the example classes.\<close>

definition msg_Base :: Message where
  "msg_Base = \<lparr>msg_id = 1, msg_class = Base_class\<rparr>"

definition msg_Leaf :: Message where
  "msg_Leaf = \<lparr>msg_id = 2, msg_class = Leaf_class\<rparr>"

definition msg_Other :: Message where
  "msg_Other = \<lparr>msg_id = 3, msg_class = Other_class\<rparr>"

text \<open>
  The example program after \<open>Link::connect\<close> of the signal at 0 to the slot at 0, and
  after the signal at 0 then emitted a \<open>Base\<close> message; and that program after
  \<open>Link::disconnect\<close> of the same pair.
\<close>

definition wired :: MPO where
  "wired = snd (Link_connect (Some 0) (Some 0) False startup)"

definition queued :: MPO where
  "queued = AnySignal_emit 0 (Some msg_Base) wired"

definition disconnected :: MPO where
  "disconnected = snd (Link_disconnect (Some 0) (Some 0) queued)"



text \<open>
  The example program after the signal at 0 was named \<open>A::out\<close> and the slot at 0
  \<open>B::in\<close>, both by a string of the caller.
\<close>

definition named :: MPO where
  "named = AnySlot_setName 0 (Temporary ''B::in'')
     (AnySignal_setName 0 (Temporary ''A::out'') startup)"

text \<open>
  The log of slot-method calls once the driver loop has returned, the bodies of the
  slot methods doing nothing.
\<close>

definition run_log :: "MPO \<Rightarrow> Invocation list option" where
  "run_log s =
     (case drain no_effect s of
        Some (Inr s') \<Rightarrow> Some (invoked s')
      | _ \<Rightarrow> None)"

text \<open>
  The method \<open>Ping::receive\<close> of main.cpp as the body of every slot method: the
  counters \<open>pingCnt\<close>, \<open>totCount\<close> and \<open>maxCount\<close> of the ball are the application
  variables 0, 1 and 2, and the output signal of an object is the signal at the
  address of the object.
\<close>

definition Ping_receive :: method_body where
  "Ping_receive f ob m k s =
     (let s1 = s\<lparr>app := (app s)(0 := app s 0 + 1)\<rparr>;
          tot = app s1 1;
          s2 = s1\<lparr>app := (app s1)(1 := tot + 1)\<rparr>
      in Inr (if tot < app s2 2 then AnySignal_emit ob (Some m) s2 else s2))"

text \<open>
  The example program with the output of the object 3 connected to its own input,
  \<open>maxCount\<close> set to 1 and one message queued.
\<close>

definition rally :: MPO where
  "rally =
     AnySignal_emit 3 (Some msg_Other)
       ((snd (Link_connect (Some 3) (Some 3) False startup))\<lparr>app := (\<lambda>v. 0)(2 := 1)\<rparr>)"

section \<open>Properties\<close>

subsection \<open>Type hierarchies\<close>

lemma isSameOrSubtypeOf_iff:
  "isSameOrSubtypeOf this t = (name this \<in> name ` set (chain t))"
  by (induction t rule: chain.induct) auto

lemma chain_Some: "chain (Some t) = t # chain (parent t)"
  by (cases t) simp

lemma chain_size: "u \<in> set (chain p) \<Longrightarrow> size u \<le> size_option size p"
  by (induction p rule: chain.induct) auto

lemma strict_ancestor_size: "strict_ancestor A B \<Longrightarrow> size A < size B"
  by (cases B) (auto simp: strict_ancestor_def dest: chain_size)

lemma chain_subset: "u \<in> set (chain p) \<Longrightarrow> set (chain (Some u)) \<subseteq> set (chain p)"
  by (induction p rule: chain.induct) auto

lemma names_identify_inj:
  "names_identify E R \<Longrightarrow> inj_on name (set (chain (Some E)) \<union> set (chain (Some R)))"
  unfolding names_identify_def by (simp add: distinct_map flip: set_append)

lemma checked_when_descendant:
  assumes ni: "names_identify E R" and anc: "strict_ancestor R E"
  shows "\<not> isSameOrSubtypeOf E (Some R)"
proof
  assume "isSameOrSubtypeOf E (Some R)"
  then obtain u where u: "u \<in> set (chain (Some R))" and nu: "name u = name E"
    by (auto simp: isSameOrSubtypeOf_iff)
  have sub: "set (chain (Some R)) \<subseteq> set (chain (parent E))"
    using anc chain_subset by (simp add: strict_ancestor_def)
  then have uE: "u \<in> set (chain (Some E))"
    using u by (auto simp: chain_Some)
  have "E \<in> set (chain (Some E))" by (simp add: chain_Some)
  with names_identify_inj [OF ni] uE nu have "u = E"
    by (auto dest: inj_onD)
  with sub u have "strict_ancestor E E" by (auto simp: strict_ancestor_def)
  then show False by (auto dest: strict_ancestor_size)
qed

lemma checked_when_unrelated:
  assumes ni: "names_identify E R" and un: "unrelated E R"
  shows "\<not> isSameOrSubtypeOf E (Some R)"
proof
  assume "isSameOrSubtypeOf E (Some R)"
  then obtain u where u: "u \<in> set (chain (Some R))" and nu: "name u = name E"
    by (auto simp: isSameOrSubtypeOf_iff)
  have "E \<in> set (chain (Some E))" by (simp add: chain_Some)
  with names_identify_inj [OF ni] u nu have "u = E"
    by (auto dest: inj_onD)
  with u un show False by (simp add: unrelated_def)
qed

subsection \<open>Containers\<close>

lemma Link_connect_new:
  assumes "\<not> AnySignal_isConnected sg sl s"
  shows "Link_connect (Some sg) (Some sl) forceStatic s =
    (True, AnySlot_connect sl (next_link s) (AnySignal_connect sg sl (next_link s)
       (snd (new_Link sg sl forceStatic s))))"
  using assms by (simp add: Link_connect_def new_Link_def)

lemma map_of_map_assign: "map_of (map_assign k v xs) = (map_of xs)(k \<mapsto> v)"
  by (induction xs) (auto simp: fun_eq_iff)

lemma map_of_map_erase: "map_of (snd (map_erase k xs)) = (map_of xs)(k := None)"
  by (induction xs) (auto simp: map_erase_def fun_eq_iff)

lemma constructed_Slot: "constructed (Slot T f obj)"
  by (simp add: constructed_def Slot_def)

lemma constructed_functions:
  "constructed X \<Longrightarrow>
   is_staticCast (m_staticCastFunction X) \<and> \<not> is_staticCast (m_dynamicCastFunction X)"
  by (auto simp: constructed_def is_staticCast_def split: Function.splits)

subsection \<open>Connecting\<close>

text \<open>
  Claim C1. Let the signal at \<open>sg\<close> be declared for type \<open>E\<close> and the slot at \<open>sl\<close>
  accept type \<open>R\<close>, the slot being as its constructor left it, and the two not yet
  connected. Then \<open>connect\<close> succeeds and constructs one link, registered with the
  signal and with the slot, whose function is the slot's static-cast function if
  \<open>forceStatic\<close> is set or the name of \<open>E\<close> is the name of \<open>R\<close> or of one of the
  ancestors of \<open>R\<close>, and the slot's dynamic-cast function otherwise; it is the
  unchecked function exactly in the first case. So \<open>E = R\<close> selects unchecked, and \<open>E\<close>
  a strict ancestor of \<open>R\<close> selects unchecked; without \<open>forceStatic\<close>, and where a name
  stands for one type within the two hierarchies, \<open>R\<close> a strict ancestor of \<open>E\<close>
  selects checked, and unrelated types select checked.
\<close>

theorem connect_selects_dispatch:
  assumes c: "constructed (slots s sl)"
    and n: "\<not> AnySignal_isConnected sg sl s"
    and E: "E = m_msgType (signals s sg)"
    and R: "R = m_msgType_slot (slots s sl)"
  shows "\<exists>L s'. Link_connect (Some sg) (Some sl) forceStatic s = (True, s')
    \<and> links s' (next_link s) = Some L
    \<and> map_of (m_links (signals s' sg)) sl = Some (next_link s)
    \<and> next_link s \<in> m_links_slot (slots s' sl)
    \<and> m_signal L = sg \<and> m_slot L = sl
    \<and> m_slotFunction L =
        (if forceStatic \<or> name E \<in> name ` set (chain (Some R))
         then m_staticCastFunction (slots s sl) else m_dynamicCastFunction (slots s sl))
    \<and> (is_staticCast (m_slotFunction L) \<longleftrightarrow>
          forceStatic \<or> name E \<in> name ` set (chain (Some R)))
    \<and> (E = R \<longrightarrow> is_staticCast (m_slotFunction L))
    \<and> (strict_ancestor E R \<longrightarrow> is_staticCast (m_slotFunction L))
    \<and> (\<not> forceStatic \<and> names_identify E R \<and> strict_ancestor R E \<longrightarrow>
          \<not> is_staticCast (m_slotFunction L))
    \<and> (\<not> forceStatic \<and> names_identify E R \<and> unrelated E R \<longrightarrow>
          \<not> is_staticCast (m_slotFunction L))"
proof -
  let ?L = "Link_ctor sg sl forceStatic s"
  let ?s = "AnySlot_connect sl (next_link s) (AnySignal_connect sg sl (next_link s)
       (snd (new_Link sg sl forceStatic s)))"
  let ?found = "forceStatic \<or> name E \<in> name ` set (chain (Some R))"
  have 1: "Link_connect (Some sg) (Some sl) forceStatic s = (True, ?s)"
    using n by (rule Link_connect_new)
  have 2: "links ?s (next_link s) = Some ?L"
    by (simp add: AnySlot_connect_def AnySignal_connect_def new_Link_def)
  have 3: "map_of (m_links (signals ?s sg)) sl = Some (next_link s)"
    by (simp add: AnySlot_connect_def AnySignal_connect_def new_Link_def map_of_map_assign)
  have 4: "next_link s \<in> m_links_slot (slots ?s sl)"
    by (simp add: AnySlot_connect_def)
  have 5: "m_signal ?L = sg" "m_slot ?L = sl"
    by (simp_all add: Link_ctor_def)
  have 6: "m_slotFunction ?L =
        (if ?found then m_staticCastFunction (slots s sl) else m_dynamicCastFunction (slots s sl))"
    by (simp add: Link_ctor_def isSameOrSubtypeOf_iff E R getStaticCastFunction_def
        getDynamicCastFunction_def)
  have 7: "is_staticCast (m_slotFunction ?L) \<longleftrightarrow> ?found"
    using constructed_functions [OF c] by (simp add: 6)
  have 8: "E = R \<longrightarrow> is_staticCast (m_slotFunction ?L)"
    unfolding 7 by (simp add: chain_Some)
  have 9: "strict_ancestor E R \<longrightarrow> is_staticCast (m_slotFunction ?L)"
    unfolding 7 by (auto simp: chain_Some strict_ancestor_def)
  have 10: "\<not> forceStatic \<and> names_identify E R \<and> strict_ancestor R E \<longrightarrow>
          \<not> is_staticCast (m_slotFunction ?L)"
    unfolding 7 using checked_when_descendant [of E R] by (auto simp: isSameOrSubtypeOf_iff)
  have 11: "\<not> forceStatic \<and> names_identify E R \<and> unrelated E R \<longrightarrow>
          \<not> is_staticCast (m_slotFunction ?L)"
    unfolding 7 using checked_when_unrelated [of E R] by (auto simp: isSameOrSubtypeOf_iff)
  show ?thesis
    by (rule exI [where x = ?L], rule exI [where x = ?s], intro conjI)
       (fact 1 2 3 4 5 6 7 8 9 10 11)+
qed

text \<open>
  The four rows of the table in the example program: \<open>Base\<close> to \<open>Base\<close>, \<open>Base\<close> to
  \<open>Leaf\<close>, \<open>Leaf\<close> to \<open>Base\<close>, and \<open>Other\<close> to \<open>Leaf\<close>.
\<close>

theorem connect_selects_dispatch_witness:
  "(\<exists>L s'. Link_connect (Some 0) (Some 0) False startup = (True, s')
      \<and> links s' 0 = Some L \<and> is_staticCast (m_slotFunction L))
   \<and> (\<exists>L s'. Link_connect (Some 0) (Some 2) False startup = (True, s')
      \<and> links s' 0 = Some L \<and> is_staticCast (m_slotFunction L))
   \<and> (\<exists>L s'. Link_connect (Some 2) (Some 0) False startup = (True, s')
      \<and> links s' 0 = Some L \<and> \<not> is_staticCast (m_slotFunction L))
   \<and> (\<exists>L s'. Link_connect (Some 3) (Some 2) False startup = (True, s')
      \<and> links s' 0 = Some L \<and> \<not> is_staticCast (m_slotFunction L))"
proof -
  have c: "constructed (slots startup a)" for a
    by (simp add: startup_def constructed_Slot)
  have n: "\<not> AnySignal_isConnected a b startup" for a b
    by (simp add: AnySignal_isConnected_def startup_def Signal_def)
  have z: "next_link startup = 0"
    by (simp add: startup_def)
  have t: "m_msgType (signals startup 0) = Base" "m_msgType (signals startup 2) = Leaf"
    "m_msgType (signals startup 3) = Other"
    "m_msgType_slot (slots startup 0) = Base" "m_msgType_slot (slots startup 2) = Leaf"
    by (simp_all add: startup_def hierarchy_def Signal_def Slot_def Base_class_def
        Leaf_class_def Other_class_def)
  have a1: "strict_ancestor Base Leaf"
    by (simp add: strict_ancestor_def Base_def Mid_def Leaf_def Message_Type_def)
  have a2: "names_identify Leaf Base \<and> strict_ancestor Base Leaf"
    by (simp add: names_identify_def strict_ancestor_def Base_def Mid_def Leaf_def
        Message_Type_def)
  have a3: "names_identify Other Leaf \<and> unrelated Other Leaf"
    by (simp add: names_identify_def unrelated_def Base_def Mid_def Leaf_def
        Message_Type_def Other_def)
  have r1: "\<exists>L s'. Link_connect (Some 0) (Some 0) False startup = (True, s')
      \<and> links s' 0 = Some L \<and> is_staticCast (m_slotFunction L)"
    using connect_selects_dispatch [where s = startup and sg = 0 and sl = 0 and E = Base
        and R = Base and forceStatic = False, OF c n]
    unfolding z t by fast
  have r2: "\<exists>L s'. Link_connect (Some 0) (Some 2) False startup = (True, s')
      \<and> links s' 0 = Some L \<and> is_staticCast (m_slotFunction L)"
    using connect_selects_dispatch [where s = startup and sg = 0 and sl = 2 and E = Base
        and R = Leaf and forceStatic = False, OF c n] a1
    unfolding z t by fast
  have r3: "\<exists>L s'. Link_connect (Some 2) (Some 0) False startup = (True, s')
      \<and> links s' 0 = Some L \<and> \<not> is_staticCast (m_slotFunction L)"
    using connect_selects_dispatch [where s = startup and sg = 2 and sl = 0 and E = Leaf
        and R = Base and forceStatic = False, OF c n] a2
    unfolding z t by fast
  have r4: "\<exists>L s'. Link_connect (Some 3) (Some 2) False startup = (True, s')
      \<and> links s' 0 = Some L \<and> \<not> is_staticCast (m_slotFunction L)"
    using connect_selects_dispatch [where s = startup and sg = 3 and sl = 2 and E = Other
        and R = Leaf and forceStatic = False, OF c n] a3
    unfolding z t by fast
  from r1 r2 r3 r4 show ?thesis
    by (intro conjI)
qed

lemma isConnected_after_connect:
  "AnySignal_isConnected sg sl (snd (Link_connect (Some sg) (Some sl) forceStatic s))"
  by (simp add: Link_connect_def new_Link_def AnySlot_connect_def AnySignal_connect_def
      AnySignal_isConnected_def map_of_map_assign)

lemma Link_connect_connected:
  "AnySignal_isConnected sg sl s \<Longrightarrow> Link_connect (Some sg) (Some sl) forceStatic s = (True, s)"
  by (simp add: Link_connect_def)

lemma links_after_connect:
  "links (snd (Link_connect (Some sg) (Some sl) forceStatic s)) =
     (if AnySignal_isConnected sg sl s then links s
      else (links s)(next_link s \<mapsto> Link_ctor sg sl forceStatic s))"
  by (simp add: Link_connect_def new_Link_def AnySlot_connect_def AnySignal_connect_def)

text \<open>
  Claim C3. \<open>connect\<close> returns false exactly when the signal or the slot pointer is
  null. For a signal \<open>sg\<close> and a slot \<open>sl\<close>: if they are already connected the call
  changes nothing, so it creates no link, and returns true; a second call, with any
  flag, returns true and changes nothing; the two are connected after the first call
  and after the second; the signal's map has one link for the slot; and the live links
  after both calls are those before, with the one new link if the two were not
  connected.
\<close>

theorem connect_idempotent:
  "(fst (Link_connect signal slot forceStatic s) = False \<longleftrightarrow> signal = None \<or> slot = None)
   \<and> (signal = Some sg \<and> slot = Some sl \<and> s1 = snd (Link_connect signal slot forceStatic s)
        \<and> s2 = snd (Link_connect signal slot forceStatic' s1) \<longrightarrow>
        (AnySignal_isConnected sg sl s \<longrightarrow> Link_connect signal slot forceStatic s = (True, s))
      \<and> Link_connect signal slot forceStatic' s1 = (True, s1)
      \<and> Link_isConnected signal slot s1 \<and> Link_isConnected signal slot s2
      \<and> (\<exists>l. map_of (m_links (signals s2 sg)) sl = Some l)
      \<and> links s2 = 
           (if AnySignal_isConnected sg sl s then links s
            else (links s)(next_link s \<mapsto> Link_ctor sg sl forceStatic s)))"
proof -
  have a: "fst (Link_connect signal slot forceStatic s) = False \<longleftrightarrow> signal = None \<or> slot = None"
    by (auto simp: Link_connect_def new_Link_def split: option.splits)
  have b: "Link_connect (Some sg) (Some sl) forceStatic'
      (snd (Link_connect (Some sg) (Some sl) forceStatic s)) =
      (True, snd (Link_connect (Some sg) (Some sl) forceStatic s))"
    by (rule Link_connect_connected) (rule isConnected_after_connect)
  have c: "Link_isConnected (Some sg) (Some sl)
      (snd (Link_connect (Some sg) (Some sl) forceStatic s))"
    by (simp add: Link_isConnected_def isConnected_after_connect)
  have d: "\<exists>l. map_of (m_links (signals (snd (Link_connect (Some sg) (Some sl) forceStatic s)) sg)) sl = Some l"
    using isConnected_after_connect [of sg sl forceStatic s]
    by (simp add: AnySignal_isConnected_def)
  show ?thesis
    using a b c d by (simp add: Link_connect_connected links_after_connect)
qed

theorem connect_idempotent_witness:
  "fst (Link_connect None (Some 0) False startup) = False
   \<and> fst (Link_connect (Some 0) None False startup) = False
   \<and> fst (Link_connect (Some 0) (Some 0) False startup)
   \<and> Link_isConnected (Some 0) (Some 0) (snd (Link_connect (Some 0) (Some 0) False startup))
   \<and> dom (links (snd (Link_connect (Some 0) (Some 0) True
           (snd (Link_connect (Some 0) (Some 0) False startup))))) = {0}
   \<and> Link_connect (Some 0) (Some 0) False
         (snd (Link_connect (Some 0) (Some 0) False startup))
       = (True, snd (Link_connect (Some 0) (Some 0) False startup))"
proof -
  let ?s1 = "snd (Link_connect (Some 0) (Some 0) False startup)"
  let ?s2 = "snd (Link_connect (Some 0) (Some 0) True ?s1)"
  have n: "\<not> AnySignal_isConnected 0 0 startup"
    by (simp add: AnySignal_isConnected_def startup_def Signal_def)
  have l: "links startup = Map.empty" "next_link startup = 0"
    by (simp_all add: startup_def)
  have 1: "fst (Link_connect None (Some 0) False startup) = False"
    using connect_idempotent [where signal = None and slot = "Some 0" and s = startup
        and forceStatic = False]
    by simp
  have 2: "fst (Link_connect (Some 0) None False startup) = False"
    using connect_idempotent [where signal = "Some 0" and slot = None and s = startup
        and forceStatic = False]
    by simp
  have 3: "fst (Link_connect (Some 0) (Some 0) False startup)
      \<and> Link_isConnected (Some 0) (Some 0) ?s1 \<and> dom (links ?s2) = {0}"
    using connect_idempotent [where signal = "Some 0" and slot = "Some 0" and s = startup
        and forceStatic = False and forceStatic' = True and sg = 0 and sl = 0
        and ?s1.0 = ?s1 and ?s2.0 = ?s2] n
    by (auto simp: l split: if_splits)
  have c: "AnySignal_isConnected 0 0 ?s1"
    by (rule isConnected_after_connect)
  have 4: "Link_connect (Some 0) (Some 0) False ?s1 = (True, ?s1)"
    using connect_idempotent [where signal = "Some 0" and slot = "Some 0" and s = ?s1
        and forceStatic = False and forceStatic' = False and sg = 0 and sl = 0
        and ?s1.0 = "snd (Link_connect (Some 0) (Some 0) False ?s1)"
        and ?s2.0 = "snd (Link_connect (Some 0) (Some 0) False
          (snd (Link_connect (Some 0) (Some 0) False ?s1)))"] c
    by blast
  from 1 2 3 4 show ?thesis by simp
qed

text \<open>
  Claim C10. For a connected pair, a further \<open>connect\<close> with any value of
  \<open>forceStatic\<close> returns true and leaves the whole program state unchanged, so the
  existing link keeps its function; this holds in particular right after a first
  \<open>connect\<close> of the pair, whatever the flags of the two calls.
\<close>

theorem connect_again_keeps_link:
  "(AnySignal_isConnected sg sl s \<longrightarrow>
      Link_connect (Some sg) (Some sl) forceStatic s = (True, s))
   \<and> (s1 = snd (Link_connect (Some sg) (Some sl) forceStatic s) \<longrightarrow>
        Link_connect (Some sg) (Some sl) forceStatic' s1 = (True, s1))"
  using isConnected_after_connect [of sg sl forceStatic s]
  by (simp add: Link_connect_connected)

text \<open>
  In the example program the signal for \<open>Leaf\<close> connected to the slot for \<open>Base\<close> gets
  the checked function, and connecting again with \<open>forceStatic\<close> set leaves it so.
\<close>

theorem connect_again_keeps_link_witness:
  "\<exists>s1 L. Link_connect (Some 2) (Some 0) False startup = (True, s1)
     \<and> links s1 0 = Some L \<and> \<not> is_staticCast (m_slotFunction L)
     \<and> AnySignal_isConnected 2 0 s1
     \<and> Link_connect (Some 2) (Some 0) True s1 = (True, s1)
     \<and> Link_connect (Some 2) (Some 0) False s1 = (True, s1)"
proof -
  let ?s1 = "snd (Link_connect (Some 2) (Some 0) False startup)"
  have 1: "Link_connect (Some 2) (Some 0) False startup = (True, ?s1)"
    by (simp add: Link_connect_def split: option.splits prod.splits)
  have 2: "links ?s1 0 = Some (Link_ctor 2 0 False startup)"
    by (simp add: links_after_connect startup_def AnySignal_isConnected_def Signal_def)
  have 3: "\<not> is_staticCast (m_slotFunction (Link_ctor 2 0 False startup))"
    by (simp add: Link_ctor_def startup_def hierarchy_def Signal_def Slot_def Base_def Mid_def
        Leaf_def Message_Type_def Base_class_def Leaf_class_def is_staticCast_def
        getDynamicCastFunction_def)
  have 4: "Link_connect (Some 2) (Some 0) True ?s1 = (True, ?s1)"
    using connect_again_keeps_link [where sg = 2 and sl = 0 and s = startup
        and forceStatic = False and forceStatic' = True and ?s1.0 = ?s1]
    by simp
  have 5: "AnySignal_isConnected 2 0 ?s1"
    by (rule isConnected_after_connect)
  have 6: "Link_connect (Some 2) (Some 0) False ?s1 = (True, ?s1)"
    using connect_again_keeps_link [where sg = 2 and sl = 0 and s = ?s1
        and forceStatic = False] 5
    by simp
  show ?thesis
    by (rule exI [where x = ?s1], rule exI [where x = "Link_ctor 2 0 False startup"],
        intro conjI) (fact 1 2 3 4 5 6)+
qed

subsection \<open>The name directories\<close>

text \<open>
  \<open>setName\<close> called with a string of the caller: after a non-empty name the lookup of
  that name returns the endpoint, whatever the directory held for the name before, the
  endpoint carries the name, and the lookup of its old name, if different, returns
  null; after the empty string the lookup of the old name returns null and the
  endpoint has no name. Every other name keeps its entry.
\<close>

lemma setName_Temporary:
  "(n \<noteq> [] \<longrightarrow>
      AnySignal_get n (AnySignal_setName this (Temporary n) s) = Some this
      \<and> m_name (signals (AnySignal_setName this (Temporary n) s) this) = n
      \<and> (m_name (signals s this) \<noteq> n \<longrightarrow>
           AnySignal_get (m_name (signals s this)) (AnySignal_setName this (Temporary n) s)
             = None)
      \<and> AnySlot_get n (AnySlot_setName this (Temporary n) s) = Some this
      \<and> m_name_slot (slots (AnySlot_setName this (Temporary n) s) this) = n
      \<and> (m_name_slot (slots s this) \<noteq> n \<longrightarrow>
           AnySlot_get (m_name_slot (slots s this)) (AnySlot_setName this (Temporary n) s)
             = None))
   \<and> AnySignal_get (m_name (signals s this)) (AnySignal_setName this (Temporary []) s) = None
   \<and> m_name (signals (AnySignal_setName this (Temporary []) s) this) = []
   \<and> AnySlot_get (m_name_slot (slots s this)) (AnySlot_setName this (Temporary []) s) = None
   \<and> m_name_slot (slots (AnySlot_setName this (Temporary []) s) this) = []
   \<and> (k \<noteq> n \<and> k \<noteq> m_name (signals s this) \<longrightarrow>
        AnySignal_get k (AnySignal_setName this (Temporary n) s) = AnySignal_get k s)
   \<and> (k \<noteq> n \<and> k \<noteq> m_name_slot (slots s this) \<longrightarrow>
        AnySlot_get k (AnySlot_setName this (Temporary n) s) = AnySlot_get k s)"
  by (simp add: AnySignal_setName_def AnySignal_unregisterName_def AnySignal_get_def
      AnySlot_setName_def AnySlot_unregisterName_def AnySlot_get_def Let_def deref_def)

text \<open>
  \<open>setName\<close> called with the endpoint's own \<open>name()\<close>: \<open>unregisterName\<close> has cleared
  the string the reference points to before it is read, so the call only unregisters.
\<close>

lemma setName_own_name:
  "AnySignal_setName this (Name_of_signal this) s = AnySignal_unregisterName this s"
  "AnySlot_setName this (Name_of_slot this) s = AnySlot_unregisterName this s"
  by (simp_all add: AnySignal_setName_def AnySignal_unregisterName_def AnySlot_setName_def
      AnySlot_unregisterName_def Let_def deref_def)

lemma named_facts:
  "m_name (signals named 0) = ''A::out''"
  "m_signalMap named = [''A::out'' \<mapsto> 0]"
  "m_name_slot (slots named 0) = ''B::in''"
  "m_slotMap named = [''B::in'' \<mapsto> 0]"
  by (simp_all add: named_def AnySignal_setName_def AnySignal_unregisterName_def
      AnySlot_setName_def AnySlot_unregisterName_def Let_def deref_def startup_def
      Signal_def Slot_def)

text \<open>
  Claim C9 at the example program whose signal at 0 is named \<open>A::out\<close> and whose slot
  at 0 is named \<open>B::in\<close>: the lookups return them. Then each is given its own
  \<open>name()\<close> as the new name, a non-empty name: afterwards the lookup of the name returns
  null and the endpoint has no name.
\<close>

theorem setName_with_own_name_unregisters:
  "m_name (signals named 0) = ''A::out''
   \<and> AnySignal_get ''A::out'' named = Some 0
   \<and> AnySignal_get ''A::out'' (AnySignal_setName 0 (Name_of_signal 0) named) = None
   \<and> m_name (signals (AnySignal_setName 0 (Name_of_signal 0) named) 0) = []
   \<and> m_name_slot (slots named 0) = ''B::in''
   \<and> AnySlot_get ''B::in'' named = Some 0
   \<and> AnySlot_get ''B::in'' (AnySlot_setName 0 (Name_of_slot 0) named) = None
   \<and> m_name_slot (slots (AnySlot_setName 0 (Name_of_slot 0) named) 0) = []"
  by (simp add: setName_own_name named_facts AnySignal_get_def AnySlot_get_def
      AnySignal_unregisterName_def AnySlot_unregisterName_def)

subsection \<open>\<open>processNext\<close> on an empty queue\<close>

text \<open>
  Claim C7, as the code has it. \<open>processNext\<close> tests \<open>empty()\<close> first: on an empty queue
  it returns false and changes nothing. It is \<open>get\<close> that throws \<open>runtime_error\<close> on an
  empty queue, and \<open>processNext\<close> never calls it there.
\<close>

theorem processNext_empty:
  "Emitted_empty (emitted s) \<Longrightarrow>
     Message_processNext body s = Inr (False, s)
     \<and> Emitted_get (emitted s) =
         Inl (runtime_error ''Message::Emitted::get called on empty Message queue'')"
  by (simp add: Message_processNext_def Emitted_processNext_def Emitted_get_def)

theorem processNext_empty_witness:
  "Emitted_empty (emitted named)
   \<and> Message_processNext Ping_receive named = Inr (False, named)"
proof -
  have e: "Emitted_empty (emitted named)"
    by (simp add: Emitted_empty_def named_def AnySignal_setName_def AnySlot_setName_def
        AnySignal_unregisterName_def AnySlot_unregisterName_def Let_def startup_def)
  with processNext_empty [OF e] show ?thesis by simp
qed

text \<open>
  The claim as stated fails in the example program right after start: the queue is
  empty, and \<open>processNext\<close> returns false, reporting no error.
\<close>

theorem processNext_empty_counterexample:
  "Message_processNext no_effect startup = Inr (False, startup)"
  by (simp add: Message_processNext_def Emitted_processNext_def Emitted_empty_def startup_def)

subsection \<open>The queue and the driver loop\<close>

lemma live_links: "links t = links s \<Longrightarrow> live t p = live s p"
  by (simp add: live_def split: option.splits)

lemma call_no_effect:
  "\<exists>c. \<forall>s. call no_effect fn p l s = Inr (s\<lparr>invoked := invoked s @ c\<rparr>)"
proof (cases fn)
  case (Bind_dynamicCastFunction T f obj)
  show ?thesis
  proof (cases "dynamic_pointer_cast T p")
    case None
    then show ?thesis
      unfolding Bind_dynamicCastFunction
      by (intro exI [where x = "[]"]) (simp add: dynamicCastFunction_def)
  next
    case (Some m)
    then show ?thesis
      unfolding Bind_dynamicCastFunction
      by (cases obj)
         (auto simp: dynamicCastFunction_def TMethod_def no_effect_def
           intro: exI [where x = "[]"])
  qed
next
  case (Bind_staticCastFunction T f obj)
  then show ?thesis
    by (cases p; cases obj)
       (auto simp: staticCastFunction_def TMethod_def no_effect_def intro: exI [where x = "[]"])
qed

lemma handled_links:
  assumes "\<And>l. link e = Some l \<Longrightarrow> links t l = links s l"
  shows "handled t e = handled s e"
proof (cases "link e")
  case None
  then show ?thesis by (simp add: handled_def)
next
  case (Some l)
  show ?thesis
  proof (cases "links s l")
    case None
    with Some assms [OF Some] show ?thesis
      by (simp add: handled_def Link_forward_def)
  next
    case L: (Some L)
    obtain c where "\<forall>u. call no_effect (m_slotFunction L) (msg e) (Some l) u
        = Inr (u\<lparr>invoked := invoked u @ c\<rparr>)"
      using call_no_effect by blast
    with Some L assms [OF Some] show ?thesis
      by (simp add: handled_def Link_forward_def)
  qed
qed

lemma Link_forward_live:
  assumes "links s l = Some L"
  shows "Link_forward no_effect l p s =
    Inr (s\<lparr>invoked := invoked s @ handled s \<lparr>msg = p, link = Some l\<rparr>\<rparr>)"
proof -
  obtain c where "\<forall>u. call no_effect (m_slotFunction L) p (Some l) u
      = Inr (u\<lparr>invoked := invoked u @ c\<rparr>)"
    using call_no_effect by blast
  with assms show ?thesis
    by (simp add: handled_def Link_forward_def)
qed

lemma processNext_step:
  assumes q: "m_queue (emitted s) = q @ [e]"
    and l: "live s (link e)"
  shows "Message_processNext no_effect s =
    Inr (q \<noteq> [], s\<lparr>emitted := (emitted s)\<lparr>m_queue := q\<rparr>,
                    invoked := invoked s @ handled s e\<rparr>)"
proof (cases "link e")
  case None
  then show ?thesis
    using q
    by (simp add: Message_processNext_def Emitted_processNext_def Emitted_empty_def
        Emitted_get_def handled_def)
next
  case (Some a)
  with l obtain L where L: "links s a = Some L" by (auto simp: live_def)
  let ?s = "s\<lparr>emitted := (emitted s)\<lparr>m_queue := q\<rparr>\<rparr>"
  have "handled ?s \<lparr>msg = msg e, link = Some a\<rparr> = handled s \<lparr>msg = msg e, link = Some a\<rparr>"
    by (rule handled_links) simp
  also have "\<dots> = handled s e"
    using Some by (simp add: handled_def)
  finally have h: "handled ?s \<lparr>msg = msg e, link = Some a\<rparr> = handled s e" .
  have "links ?s a = Some L" using L by simp
  from Link_forward_live [OF this, of "msg e"] show ?thesis
    using q Some
    by (simp add: Message_processNext_def Emitted_processNext_def Emitted_empty_def
        Emitted_get_def h)
qed

lemma drain_log:
  "m_queue (emitted s) = q \<Longrightarrow> queue_ok s \<Longrightarrow>
   drain no_effect s = Some (Inr (s\<lparr>emitted := (emitted s)\<lparr>m_queue := []\<rparr>,
                   invoked := invoked s @ concat (map (handled s) (rev q))\<rparr>))"
proof (induction q arbitrary: s rule: rev_induct)
  case Nil
  then have "Message_processNext no_effect s = Inr (False, s)"
    by (simp add: Message_processNext_def Emitted_processNext_def Emitted_empty_def)
  then show ?case
    using Nil by (subst drain.simps) simp
next
  case (snoc e q)
  let ?s = "s\<lparr>emitted := (emitted s)\<lparr>m_queue := q\<rparr>, invoked := invoked s @ handled s e\<rparr>"
  from snoc.prems have l: "live s (link e)" and ok: "queue_ok ?s"
    by (simp_all add: queue_ok_def live_links [of ?s s])
  have step: "Message_processNext no_effect s = Inr (q \<noteq> [], ?s)"
    using snoc.prems(1) l by (rule processNext_step)
  have hs: "handled ?s = handled s"
    by (rule ext, rule handled_links) simp
  have "drain no_effect ?s = Some (Inr (?s\<lparr>emitted := (emitted ?s)\<lparr>m_queue := []\<rparr>,
                   invoked := invoked ?s @ concat (map (handled ?s) (rev q))\<rparr>))"
    by (rule snoc.IH) (simp, rule ok)
  then have rest: "drain no_effect ?s = Some (Inr (s\<lparr>emitted := (emitted s)\<lparr>m_queue := []\<rparr>,
                   invoked := invoked s @ concat (map (handled s) (rev (q @ [e])))\<rparr>))"
    by (simp add: hs)
  show ?case
  proof (cases "q = []")
    case True
    then show ?thesis
      using step by (subst drain.simps) simp
  next
    case False
    then show ?thesis
      using step rest by (subst drain.simps) simp
  qed
qed

lemma get_all_rev: "get_all q = rev (m_queue q)"
proof (induction "m_queue q" arbitrary: q rule: rev_induct)
  case Nil
  then show ?case
    by (subst get_all.simps) (simp add: Emitted_get_def Emitted_empty_def)
next
  case (snoc e es)
  from snoc.hyps(2) [symmetric] have "get_all q = e # get_all (q\<lparr>m_queue := es\<rparr>)"
    by (subst get_all.simps) (simp add: Emitted_get_def Emitted_empty_def)
  also have "get_all (q\<lparr>m_queue := es\<rparr>) = rev es"
    using snoc.hyps(1) [of "q\<lparr>m_queue := es\<rparr>"] by simp
  finally show ?case
    using snoc.hyps(2) [symmetric] by simp
qed

lemma queue_after_adds:
  "m_queue (emitted (foldl (\<lambda>s' e. Emitted_add e s') s es)) = rev es @ m_queue (emitted s)"
  by (induction es arbitrary: s) (simp_all add: Emitted_add_def Let_def split: option.splits)

lemma handled_through: "list_all (through l) (handled s \<lparr>msg = p, link = Some l\<rparr>)"
proof (cases "links s l")
  case None
  then show ?thesis by (simp add: handled_def Link_forward_def)
next
  case (Some L)
  then show ?thesis
    by (cases "m_slotFunction L")
       (simp_all add: handled_def Link_forward_def dynamicCastFunction_def
         staticCastFunction_def TMethod_def no_effect_def split: option.splits)
qed
lemma handled_entry: "handled s \<lparr>msg = msg e, link = link e\<rparr> = handled s e"
  by (simp add: handled_def split: option.splits)

lemma forward_after_get:
  assumes "links s a = Some L" and "link e = Some a"
  shows "Link_forward no_effect a (msg e) (s\<lparr>emitted := x\<rparr>) =
    Inr (s\<lparr>emitted := x, invoked := invoked s @ handled s e\<rparr>)"
proof -
  let ?s = "s\<lparr>emitted := x\<rparr>"
  have "handled ?s \<lparr>msg = msg e, link = Some a\<rparr> = handled s \<lparr>msg = msg e, link = Some a\<rparr>"
    by (rule handled_links) simp
  also have "\<dots> = handled s e"
    using assms(2) handled_entry [of s e] by simp
  finally have h: "handled ?s \<lparr>msg = msg e, link = Some a\<rparr> = handled s e" .
  have "links ?s a = Some L" using assms(1) by simp
  from Link_forward_live [OF this, of "msg e"] show ?thesis
    by (simp add: h)
qed

lemma Emitted_add_frame:
  "m_queue (emitted (Emitted_add e s)) = e # m_queue (emitted s)"
  "signals (Emitted_add e s) = signals s"
  "slots (Emitted_add e s) = slots s"
  "links (Emitted_add e s) = links s"
  "invoked (Emitted_add e s) = invoked s"
  by (simp_all add: Emitted_add_def Let_def split: option.splits)

lemma emit_one_link:
  "m_links (signals s sg) = [(sl, l)] \<Longrightarrow>
     AnySignal_emit sg p s = Emitted_add \<lparr>msg = p, link = Some l\<rparr> s"
  by (simp add: AnySignal_emit_def)

lemma handled_through_entry: "link e = Some l \<Longrightarrow> list_all (through l) (handled s e)"
  using handled_through [of l s "msg e"] handled_entry [of s e] by simp

lemma handled_not_through: "link e \<noteq> Some l \<Longrightarrow> filter (through l) (handled s e) = []"
proof (cases "link e")
  case None
  then show ?thesis by (simp add: handled_def)
next
  case (Some k)
  assume "link e \<noteq> Some l"
  with Some have "k \<noteq> l" by simp
  have "\<not> through l i" if "through k i" for i
    using that \<open>k \<noteq> l\<close> by (cases i) simp
  with handled_through_entry [OF Some, of s] show ?thesis
    by (auto simp: list_all_iff filter_empty_conv)
qed

lemma processNext_result:
  "Message_processNext body s = Inr (b, s') \<Longrightarrow> b = (\<not> Emitted_empty (emitted s'))"
  by (auto simp: Message_processNext_def Emitted_processNext_def Emitted_get_def
      split: if_splits option.splits sum.splits)

lemma drain_result:
  assumes d: "drain body s = Some r"
  shows "case r of Inl err \<Rightarrow> True | Inr s' \<Rightarrow> Emitted_empty (emitted s')"
proof (rule drain.raw_induct [where P = "\<lambda>body s r. case r of Inl err \<Rightarrow> True
    | Inr s' \<Rightarrow> Emitted_empty (emitted s')", OF _ d])
  fix drain' :: "method_body \<Rightarrow> MPO \<Rightarrow> (error + MPO) option" and body s r
  assume IH: "\<And>body s r. drain' body s = Some r \<Longrightarrow>
      (case r of Inl err \<Rightarrow> True | Inr s' \<Rightarrow> Emitted_empty (emitted s'))"
    and F: "(case Message_processNext body s of
        Inl e \<Rightarrow> Some (Inl e)
      | Inr r \<Rightarrow> if fst r then drain' body (snd r) else Some (Inr (snd r))) = Some r"
  show "case r of Inl err \<Rightarrow> True | Inr s' \<Rightarrow> Emitted_empty (emitted s')"
  proof (cases "Message_processNext body s")
    case (Inl err)
    with F show ?thesis by auto
  next
    case (Inr x)
    show ?thesis
    proof (cases "fst x")
      case True
      with Inr F have "drain' body (snd x) = Some r"
        by simp
      then show ?thesis by (rule IH)
    next
      case False
      with Inr F have "r = Inr (snd x)"
        by simp
      moreover from False Inr have "Emitted_empty (emitted (snd x))"
        using processNext_result [of body s "fst x" "snd x"] by (cases x) simp
      ultimately show ?thesis by simp
    qed
  qed
qed

lemma drain_stops_empty:
  "drain body s = Some (Inr s') \<Longrightarrow> Emitted_empty (emitted s')"
  using drain_result [of body s "Inr s'"] by simp

text \<open>
  Claim C6, for slot methods with any body. The oldest entry is the back of \<open>m_queue\<close>.
  On a non-empty queue: if the oldest entry's link pointer is null, \<open>processNext\<close> only
  removes that entry; if it points to a link, \<open>processNext\<close> is the link's \<open>forward\<close>
  on the entry's message, run in the state without that entry. Whenever \<open>processNext\<close>
  returns, its value is true exactly when the queue is non-empty after the call, the
  slot method included. The driver loop goes on after a call that returned true, ends
  after a call that returned false, and is left by an exception of a call; when it
  ends, the queue is empty. With slot methods that do nothing and the queue in order
  it does end, in the state with an empty queue and the calls of every entry logged,
  oldest entry first.
\<close>

theorem processNext_removes_head:
  "(\<not> Emitted_empty (emitted s) \<and> link (last (m_queue (emitted s))) = None \<longrightarrow>
      Message_processNext body s =
        Inr (butlast (m_queue (emitted s)) \<noteq> [],
             s\<lparr>emitted := (emitted s)\<lparr>m_queue := butlast (m_queue (emitted s))\<rparr>\<rparr>))
   \<and> (\<not> Emitted_empty (emitted s) \<and> link (last (m_queue (emitted s))) = Some l \<longrightarrow>
      Message_processNext body s =
        (case Link_forward body l (msg (last (m_queue (emitted s))))
                (s\<lparr>emitted := (emitted s)\<lparr>m_queue := butlast (m_queue (emitted s))\<rparr>\<rparr>) of
           Inl e \<Rightarrow> Inl e
         | Inr s' \<Rightarrow> Inr (\<not> Emitted_empty (emitted s'), s')))
   \<and> (Message_processNext body s = Inr (b, s1) \<longrightarrow> b = (\<not> Emitted_empty (emitted s1)))
   \<and> (Message_processNext body s = Inr (True, s1) \<longrightarrow> drain body s = drain body s1)
   \<and> (Message_processNext body s = Inr (False, s1) \<longrightarrow> drain body s = Some (Inr s1))
   \<and> (Message_processNext body s = Inl err \<longrightarrow> drain body s = Some (Inl err))
   \<and> (drain body s = Some (Inr s2) \<longrightarrow> Emitted_empty (emitted s2))
   \<and> (queue_ok s \<longrightarrow>
        drain no_effect s =
          Some (Inr (s\<lparr>emitted := (emitted s)\<lparr>m_queue := []\<rparr>,
                       invoked := invoked s
                         @ concat (map (handled s) (rev (m_queue (emitted s))))\<rparr>)))"
proof (intro conjI impI)
  assume "\<not> Emitted_empty (emitted s) \<and> link (last (m_queue (emitted s))) = None"
  then show "Message_processNext body s =
        Inr (butlast (m_queue (emitted s)) \<noteq> [],
             s\<lparr>emitted := (emitted s)\<lparr>m_queue := butlast (m_queue (emitted s))\<rparr>\<rparr>)"
    by (simp add: Message_processNext_def Emitted_processNext_def Emitted_get_def
        Emitted_empty_def)
next
  assume "\<not> Emitted_empty (emitted s) \<and> link (last (m_queue (emitted s))) = Some l"
  then show "Message_processNext body s =
        (case Link_forward body l (msg (last (m_queue (emitted s))))
                (s\<lparr>emitted := (emitted s)\<lparr>m_queue := butlast (m_queue (emitted s))\<rparr>\<rparr>) of
           Inl e \<Rightarrow> Inl e
         | Inr s' \<Rightarrow> Inr (\<not> Emitted_empty (emitted s'), s'))"
    by (simp add: Message_processNext_def Emitted_processNext_def Emitted_get_def
        Emitted_empty_def)
next
  assume "Message_processNext body s = Inr (b, s1)"
  then show "b = (\<not> Emitted_empty (emitted s1))"
    by (rule processNext_result)
next
  assume "Message_processNext body s = Inr (True, s1)"
  then show "drain body s = drain body s1"
    by (subst drain.simps) simp
next
  assume "Message_processNext body s = Inr (False, s1)"
  then show "drain body s = Some (Inr s1)"
    by (subst drain.simps) simp
next
  assume "Message_processNext body s = Inl err"
  then show "drain body s = Some (Inl err)"
    by (subst drain.simps) simp
next
  assume "drain body s = Some (Inr s2)"
  then show "Emitted_empty (emitted s2)"
    by (rule drain_stops_empty)
next
  assume "queue_ok s"
  from drain_log [OF refl this]
  show "drain no_effect s =
          Some (Inr (s\<lparr>emitted := (emitted s)\<lparr>m_queue := []\<rparr>,
                       invoked := invoked s
                         @ concat (map (handled s) (rev (m_queue (emitted s))))\<rparr>))" .
qed

text \<open>
  Claim C5. Entries added to the queue are returned by \<open>get\<close> after the entries that
  were there, in the order in which they were added. The driver loop calls the slot
  methods in that order: with slot methods that do nothing, its log is the old log
  followed by the calls of each entry, oldest entry first. In particular, when a signal has one link and the queue is empty,
  emitting \<open>m1\<close> and then \<open>m2\<close> and running the driver loop logs the calls for \<open>m1\<close>
  before the calls for \<open>m2\<close>.
\<close>

theorem queue_is_fifo:
  "get_all (emitted (foldl (\<lambda>s' e. Emitted_add e s') s es)) = get_all (emitted s) @ es
   \<and> (queue_ok s \<longrightarrow>
        (\<exists>s'. drain no_effect s = Some (Inr s')
           \<and> invoked s' = invoked s @ concat (map (handled s) (get_all (emitted s)))))
   \<and> (m_links (signals s sg) = [(sl, l)] \<and> links s l \<noteq> None \<and> Emitted_empty (emitted s) \<longrightarrow>
        (\<exists>s'. drain no_effect (AnySignal_emit sg (Some m2) (AnySignal_emit sg (Some m1) s))
             = Some (Inr s')
           \<and> invoked s' = invoked s @ handled s \<lparr>msg = Some m1, link = Some l\<rparr>
                @ handled s \<lparr>msg = Some m2, link = Some l\<rparr>))"
proof (intro conjI impI)
  show "get_all (emitted (foldl (\<lambda>s' e. Emitted_add e s') s es)) = get_all (emitted s) @ es"
    by (simp add: get_all_rev queue_after_adds)
next
  assume "queue_ok s"
  from drain_log [OF refl this]
  show "\<exists>s'. drain no_effect s = Some (Inr s')
      \<and> invoked s' = invoked s @ concat (map (handled s) (get_all (emitted s)))"
    by (simp add: get_all_rev)
next
  assume a: "m_links (signals s sg) = [(sl, l)] \<and> links s l \<noteq> None \<and> Emitted_empty (emitted s)"
  let ?e1 = "\<lparr>msg = Some m1, link = Some l\<rparr>" and ?e2 = "\<lparr>msg = Some m2, link = Some l\<rparr>"
  let ?s1 = "Emitted_add ?e1 s"
  let ?s2 = "Emitted_add ?e2 ?s1"
  have s1: "AnySignal_emit sg (Some m1) s = ?s1"
    using a by (simp add: emit_one_link)
  have s2: "AnySignal_emit sg (Some m2) ?s1 = ?s2"
    using a by (simp add: emit_one_link [where sl = sl] Emitted_add_frame)
  have q: "m_queue (emitted ?s2) = [?e2, ?e1]"
    using a by (simp add: Emitted_add_frame Emitted_empty_def)
  have ok: "queue_ok ?s2"
    using a by (simp add: queue_ok_def live_def Emitted_add_frame Emitted_empty_def)
  have h: "handled ?s2 = handled s"
    by (rule ext, rule handled_links) (simp add: Emitted_add_frame)
  from drain_log [OF q ok]
  show "\<exists>s'. drain no_effect (AnySignal_emit sg (Some m2) (AnySignal_emit sg (Some m1) s))
             = Some (Inr s')
           \<and> invoked s' = invoked s @ handled s ?e1 @ handled s ?e2"
    by (simp add: s1 s2 h Emitted_add_frame)
qed

text \<open>
  Claim C2. Destroying a live link \<open>l\<close> while the queue is in order succeeds; it leaves
  the queue without the entries of \<open>l\<close> and with every other entry, in their order, so
  no entry references \<open>l\<close>; \<open>l\<close> is no longer live and the queue is still in order,
  every remaining entry pointing to a live link or to none; the driver loop, with slot
  methods that do nothing, then returns without error, having made the calls of the
  remaining entries, and no slot method was called through \<open>l\<close> beyond the calls logged
  before the destruction.
\<close>

theorem Link_dtor_purges_queue:
  assumes L: "links s l = Some L" and ok: "queue_ok s"
  shows "\<exists>s1 s2. Link_dtor l s = Inr s1
    \<and> m_queue (emitted s1) = filter (\<lambda>e. link e \<noteq> Some l) (m_queue (emitted s))
    \<and> list_all (\<lambda>e. link e \<noteq> Some l) (m_queue (emitted s1))
    \<and> links s1 = (links s)(l := None)
    \<and> queue_ok s1
    \<and> drain no_effect s1 = Some (Inr s2)
    \<and> invoked s2 = invoked s @ concat (map (handled s) (rev (m_queue (emitted s1))))
    \<and> filter (through l) (invoked s2) = filter (through l) (invoked s)"
proof -
  let ?q = "filter (\<lambda>e. link e \<noteq> Some l) (m_queue (emitted s))"
  obtain s1 where d: "Link_dtor l s = Inr s1"
    and q: "m_queue (emitted s1) = ?q"
    and k: "links s1 = (links s)(l := None)"
    and i: "invoked s1 = invoked s"
    using L
    by (simp add: Link_dtor_def Let_def AnySlot_disconnect_def AnySignal_disconnect_def
        Emitted_erase_def)
  have p: "list_all (\<lambda>e. link e \<noteq> Some l) (m_queue (emitted s1))"
    by (simp add: q list_all_iff)
  have ok1: "queue_ok s1"
    using ok by (auto simp: queue_ok_def q k list_all_iff live_def split: option.splits)
  have h: "handled s1 e = handled s e" if "e \<in> set ?q" for e
    using that by (intro handled_links) (auto simp: k)
  have "drain no_effect s1 = Some (Inr (s1\<lparr>emitted := (emitted s1)\<lparr>m_queue := []\<rparr>,
      invoked := invoked s1 @ concat (map (handled s1) (rev ?q))\<rparr>))"
    using drain_log [OF q ok1] .
  also have "map (handled s1) (rev ?q) = map (handled s) (rev ?q)"
    by (rule map_cong) (simp_all add: h)
  finally obtain s2 where r: "drain no_effect s1 = Some (Inr s2)"
    and i2: "invoked s2 = invoked s @ concat (map (handled s) (rev ?q))"
    by (simp add: i)
  have "filter (through l) (concat (map (handled s) (rev ?q))) = []"
    by (simp add: filter_concat handled_not_through o_def)
  then have t: "filter (through l) (invoked s2) = filter (through l) (invoked s)"
    by (simp add: i2)
  show ?thesis
    by (rule exI [where x = s1], rule exI [where x = s2], intro conjI)
       (fact d q p k ok1 r t | simp add: i2 q)+
qed

subsection \<open>The example program\<close>

lemma startup_not_connected: "\<not> AnySignal_isConnected a b startup"
  by (simp add: AnySignal_isConnected_def startup_def Signal_def)

lemma wired_facts:
  "links wired = [0 \<mapsto> \<lparr>m_signal = 0, m_slot = 0,
      m_slotFunction = Bind_staticCastFunction Base_class 0 (Some 0)\<rparr>]"
  "m_links (signals wired 0) = [(0, 0)]"
  "m_links_slot (slots wired 0) = {0}"
  "emitted wired = \<lparr>m_queue = [], m_notify = None\<rparr>"
  "invoked wired = []"
  unfolding wired_def Link_connect_new [OF startup_not_connected]
  by (simp_all add: AnySlot_connect_def AnySignal_connect_def new_Link_def Link_ctor_def
      startup_def hierarchy_def Signal_def Slot_def getStaticCastFunction_def Base_def
      Base_class_def)

lemma queued_facts:
  "links queued = links wired"
  "m_links (signals queued 0) = [(0, 0)]"
  "m_links_slot (slots queued 0) = {0}"
  "m_queue (emitted queued) = [\<lparr>msg = Some msg_Base, link = Some 0\<rparr>]"
  "invoked queued = []"
  unfolding queued_def emit_one_link [OF wired_facts(2)]
  by (simp_all add: Emitted_add_frame wired_facts)

lemma handled_wired:
  "links s = links wired \<Longrightarrow>
     handled s \<lparr>msg = Some m, link = Some 0\<rparr> = [Invocation 0 0 m (Some 0)]"
  by (simp add: handled_def Link_forward_def wired_facts staticCastFunction_def TMethod_def
      no_effect_def)

lemma queue_ok_queued: "queue_ok queued"
  by (simp add: queue_ok_def live_def queued_facts wired_facts)

lemma run_log_ok:
  "queue_ok s \<Longrightarrow>
     run_log s = Some (invoked s @ concat (map (handled s) (rev (m_queue (emitted s)))))"
  using drain_log [OF refl, of s] by (simp add: run_log_def)

lemma Ping_receive_step:
  assumes q: "m_queue (emitted s) = [\<lparr>msg = Some m, link = Some l\<rparr>]"
    and n: "m_notify (emitted s) = None"
    and L: "links s l = Some L"
    and f: "m_slotFunction L = Bind_staticCastFunction T f (Some ob)"
    and o: "m_links (signals s ob) = [(sl, l)]"
  shows "Message_processNext Ping_receive s =
    Inr (app s 1 < app s 2,
         s\<lparr>emitted := (emitted s)
               \<lparr>m_queue := (if app s 1 < app s 2 then [\<lparr>msg = Some m, link = Some l\<rparr>] else [])\<rparr>,
           invoked := invoked s @ [Invocation f ob m (Some l)],
           app := (app s)(0 := app s 0 + 1, 1 := app s 1 + 1)\<rparr>)"
  using q n L f o
  by (simp add: Message_processNext_def Emitted_processNext_def Emitted_empty_def
      Emitted_get_def Link_forward_def staticCastFunction_def TMethod_def Ping_receive_def
      Let_def AnySignal_emit_def Emitted_add_def)

lemma rally_facts:
  "m_queue (emitted rally) = [\<lparr>msg = Some msg_Other, link = Some 0\<rparr>]"
  "m_notify (emitted rally) = None"
  "links rally 0 = Some \<lparr>m_signal = 3, m_slot = 3,
      m_slotFunction = Bind_staticCastFunction Other_class 3 (Some 3)\<rparr>"
  "m_links (signals rally 3) = [(3, 0)]"
  "invoked rally = []"
  "app rally = (\<lambda>v. 0)(2 := 1)"
  unfolding rally_def Link_connect_new [OF startup_not_connected]
  by (simp_all add: AnySignal_emit_def Emitted_add_def AnySlot_connect_def
      AnySignal_connect_def new_Link_def Link_ctor_def startup_def hierarchy_def Signal_def
      Slot_def getStaticCastFunction_def Other_def Other_class_def)

text \<open>
  In the example program with one queued entry and slot methods that do nothing,
  \<open>processNext\<close> delivers the entry and returns false, the queue being empty then. With
  the body of \<open>Ping::receive\<close> and one queued entry, the first \<open>processNext\<close> returns true:
  the slot method has emitted, and the queue holds one entry after the call; the second
  returns false, and the driver loop ends there, after two calls of the slot method. An
  entry with a null link pointer is only removed, and an entry whose link pointer
  points to no live link ends the loop with that error.
\<close>

theorem processNext_removes_head_witness:
  "(\<exists>s'. Message_processNext no_effect queued = Inr (False, s')
        \<and> m_queue (emitted s') = []
        \<and> invoked s' = [Invocation 0 0 msg_Base (Some 0)])
   \<and> (\<exists>s'. drain no_effect queued = Some (Inr s')
        \<and> m_queue (emitted s') = []
        \<and> invoked s' = [Invocation 0 0 msg_Base (Some 0)])
   \<and> (\<exists>s1 s2. Message_processNext Ping_receive rally = Inr (True, s1)
        \<and> m_queue (emitted s1) = [\<lparr>msg = Some msg_Other, link = Some 0\<rparr>]
        \<and> Message_processNext Ping_receive s1 = Inr (False, s2)
        \<and> drain Ping_receive rally = Some (Inr s2)
        \<and> Emitted_empty (emitted s2)
        \<and> invoked s2 = [Invocation 3 3 msg_Other (Some 0), Invocation 3 3 msg_Other (Some 0)]
        \<and> app s2 0 = 2)
   \<and> Message_processNext Ping_receive (Emitted_add \<lparr>msg = Some msg_Base, link = None\<rparr> startup)
       = Inr (False, startup)
   \<and> drain Ping_receive (Emitted_add \<lparr>msg = Some msg_Base, link = Some 7\<rparr> startup)
       = Some (Inl (dangling_Link 7))"
proof -
  let ?e = "\<lparr>msg = Some msg_Base, link = Some 0\<rparr>"
  let ?s' = "queued\<lparr>emitted := (emitted queued)\<lparr>m_queue := []\<rparr>,
      invoked := [Invocation 0 0 msg_Base (Some 0)]\<rparr>"
  have ne: "\<not> Emitted_empty (emitted queued) \<and> link (last (m_queue (emitted queued))) = Some 0"
    by (simp add: Emitted_empty_def queued_facts)
  have fw: "Link_forward no_effect 0 (msg (last (m_queue (emitted queued))))
      (queued\<lparr>emitted := (emitted queued)\<lparr>m_queue := butlast (m_queue (emitted queued))\<rparr>\<rparr>)
      = Inr ?s'"
    by (simp add: Link_forward_def queued_facts wired_facts staticCastFunction_def TMethod_def
        no_effect_def)
  have 1: "Message_processNext no_effect queued = Inr (False, ?s')"
    using processNext_removes_head [where body = no_effect and s = queued and l = 0,
        THEN conjunct2, THEN conjunct1, THEN mp, OF ne]
    unfolding fw by (simp add: Emitted_empty_def)
  have h: "handled queued ?e = [Invocation 0 0 msg_Base (Some 0)]"
    by (simp add: handled_wired queued_facts)
  have 2: "drain no_effect queued = Some (Inr ?s')"
    using processNext_removes_head [where body = no_effect and s = queued,
        THEN conjunct2, THEN conjunct2, THEN conjunct2, THEN conjunct2, THEN conjunct2, THEN conjunct2, THEN conjunct2, THEN mp, OF queue_ok_queued]
    by (simp add: queued_facts h)
  let ?t = "\<lparr>msg = Some msg_Other, link = Some 0\<rparr>"
  let ?s1 = "rally\<lparr>emitted := (emitted rally)\<lparr>m_queue := [?t]\<rparr>,
      invoked := [Invocation 3 3 msg_Other (Some 0)],
      app := (\<lambda>v. 0)(2 := 1, 0 := 1, 1 := 1)\<rparr>"
  let ?s2 = "?s1\<lparr>emitted := (emitted ?s1)\<lparr>m_queue := []\<rparr>,
      invoked := [Invocation 3 3 msg_Other (Some 0), Invocation 3 3 msg_Other (Some 0)],
      app := (\<lambda>v. 0)(2 := 1, 0 := 2, 1 := 2)\<rparr>"
  have 3: "Message_processNext Ping_receive rally = Inr (True, ?s1)"
    using Ping_receive_step [OF rally_facts(1) rally_facts(2) rally_facts(3) _ rally_facts(4)]
    by (simp add: rally_facts)
  have 4: "Message_processNext Ping_receive ?s1 = Inr (False, ?s2)"
    using Ping_receive_step [where s = ?s1 and m = msg_Other and l = 0 and T = Other_class
        and f = 3 and ob = 3 and sl = 3
        and L = "\<lparr>m_signal = 3, m_slot = 3,
          m_slotFunction = Bind_staticCastFunction Other_class 3 (Some 3)\<rparr>"]
    by (simp add: rally_facts)
  have 5: "drain Ping_receive rally = Some (Inr ?s2)"
    using processNext_removes_head [where body = Ping_receive and s = rally and ?s1.0 = ?s1,
        THEN conjunct2, THEN conjunct2, THEN conjunct2, THEN conjunct1, THEN mp, OF 3]
      processNext_removes_head [where body = Ping_receive and s = ?s1 and ?s1.0 = ?s2,
        THEN conjunct2, THEN conjunct2, THEN conjunct2, THEN conjunct2, THEN conjunct1, THEN mp, OF 4]
    by (rule trans)
  have 6: "Message_processNext Ping_receive
      (Emitted_add \<lparr>msg = Some msg_Base, link = None\<rparr> startup) = Inr (False, startup)"
    using processNext_removes_head [where body = Ping_receive
        and s = "Emitted_add \<lparr>msg = Some msg_Base, link = None\<rparr> startup",
        THEN conjunct1]
    by (simp add: Emitted_add_def Emitted_empty_def startup_def)
  have 7: "Emitted_empty (emitted ?s2)"
    using processNext_removes_head [where body = Ping_receive and s = rally and ?s2.0 = ?s2,
        THEN conjunct2, THEN conjunct2, THEN conjunct2, THEN conjunct2, THEN conjunct2, THEN conjunct2, THEN conjunct1, THEN mp, OF 5] .
  have 8: "True = (\<not> Emitted_empty (emitted ?s1))"
    using processNext_removes_head [where body = Ping_receive and s = rally and ?s1.0 = ?s1
        and b = True, THEN conjunct2, THEN conjunct2, THEN conjunct1, THEN mp, OF 3] .
  let ?d = "Emitted_add \<lparr>msg = Some msg_Base, link = Some 7\<rparr> startup"
  have d: "\<not> Emitted_empty (emitted ?d) \<and> link (last (m_queue (emitted ?d))) = Some 7"
    by (simp add: Emitted_add_def Emitted_empty_def startup_def)
  have "Message_processNext Ping_receive ?d = Inl (dangling_Link 7)"
    using processNext_removes_head [where body = Ping_receive and s = ?d and l = 7,
        THEN conjunct2, THEN conjunct1, THEN mp, OF d]
    by (simp add: Link_forward_def Emitted_add_def startup_def)
  then have 9: "drain Ping_receive ?d = Some (Inl (dangling_Link 7))"
    using processNext_removes_head [where body = Ping_receive and s = ?d
        and err = "dangling_Link 7", THEN conjunct2, THEN conjunct2, THEN conjunct2, THEN conjunct2, THEN conjunct2, THEN conjunct1, THEN mp]
    by simp
  show ?thesis
    using 1 2 3 4 5 6 7 8 9 by (simp add: Emitted_empty_def)
qed

text \<open>
  The signal at 0 emits a \<open>Base\<close> message and then a \<open>Leaf\<close> message: the slot method
  is called for the first and then for the second.
\<close>

theorem queue_is_fifo_witness:
  "queue_ok wired
   \<and> (\<exists>s'. drain no_effect
            (AnySignal_emit 0 (Some msg_Leaf) (AnySignal_emit 0 (Some msg_Base) wired))
          = Some (Inr s')
        \<and> invoked s' = [Invocation 0 0 msg_Base (Some 0), Invocation 0 0 msg_Leaf (Some 0)])"
proof -
  have 1: "queue_ok wired"
    by (simp add: queue_ok_def wired_facts)
  have 2: "m_links (signals wired 0) = [(0, 0)] \<and> links wired 0 \<noteq> None
      \<and> Emitted_empty (emitted wired)"
    by (simp add: wired_facts Emitted_empty_def)
  show ?thesis
    using queue_is_fifo [where s = wired and sg = 0 and sl = 0 and l = 0 and ?m1.0 = msg_Base
        and ?m2.0 = msg_Leaf and es = "[]"] 1 2
    by (simp add: handled_wired wired_facts)
qed

text \<open>
  Destroying the link of the example program while its entry is queued: the queue is
  empty afterwards, and the driver loop calls nothing.
\<close>

theorem Link_dtor_purges_queue_witness:
  "\<exists>s1 s2. Link_dtor 0 queued = Inr s1
     \<and> m_queue (emitted s1) = []
     \<and> links s1 0 = None
     \<and> drain no_effect s1 = Some (Inr s2)
     \<and> invoked s2 = []"
proof -
  have 1: "links queued 0 = Some \<lparr>m_signal = 0, m_slot = 0,
      m_slotFunction = Bind_staticCastFunction Base_class 0 (Some 0)\<rparr>"
    by (simp add: queued_facts wired_facts)
  show ?thesis
    using Link_dtor_purges_queue [OF 1 queue_ok_queued]
    by (auto simp: queued_facts)
qed

subsection \<open>The two slot functions\<close>


text \<open>
  Both functions return without a call, and without an error, when the message pointer
  or the bound object pointer is null.
\<close>

lemma slot_functions_null:
  "dynamicCastFunction body T f obj None k s = Inr s"
  "dynamicCastFunction body T f None p k s = Inr s"
  "staticCastFunction body T f obj None k s = Inr s"
  "staticCastFunction body T f None p k s = Inr s"
  by (simp_all add: dynamicCastFunction_def staticCastFunction_def dynamic_pointer_cast_def
      split: option.splits)








subsection \<open>Disconnecting\<close>

lemma Link_disconnect_frame:
  "links (snd (Link_disconnect a b s)) = links s"
  "slots (snd (Link_disconnect a b s)) = slots s"
  "emitted (snd (Link_disconnect a b s)) = emitted s"
  "invoked (snd (Link_disconnect a b s)) = invoked s"
  by (simp_all add: Link_disconnect_def AnySignal_disconnect_def Let_def split: option.splits)

lemma Link_disconnect_result:
  "fst (Link_disconnect (Some sg) (Some sl) s) = AnySignal_isConnected sg sl s"
  "\<not> AnySignal_isConnected sg sl (snd (Link_disconnect (Some sg) (Some sl) s))"
  by (simp_all add: Link_disconnect_def AnySignal_disconnect_def Let_def
      AnySignal_isConnected_def map_of_map_erase, simp add: map_erase_def)

lemma queue_ok_frame:
  "links t = links s \<Longrightarrow> emitted t = emitted s \<Longrightarrow> queue_ok t = queue_ok s"
  by (simp add: queue_ok_def live_links [of t s])

text \<open>
  Claim C4 at the example program with its link connected and one entry queued:
  \<open>Link::disconnect\<close> returns true and the pair is no longer connected, but the link
  object is still live, still in the slot's link set, its entry is still queued, and
  the driver loop still calls the slot method through it. \<open>Link::disconnect\<close> only
  erases the entry of the signal's map; it never runs the destructor \<open>~Link\<close>.
\<close>

theorem disconnect_leaves_link:
  "fst (Link_disconnect (Some 0) (Some 0) queued)
   \<and> \<not> Link_isConnected (Some 0) (Some 0) disconnected
   \<and> links disconnected 0 = Some \<lparr>m_signal = 0, m_slot = 0,
        m_slotFunction = Bind_staticCastFunction Base_class 0 (Some 0)\<rparr>
   \<and> 0 \<in> m_links_slot (slots disconnected 0)
   \<and> m_queue (emitted disconnected) = [\<lparr>msg = Some msg_Base, link = Some 0\<rparr>]
   \<and> run_log disconnected = Some [Invocation 0 0 msg_Base (Some 0)]"
proof -
  have c: "AnySignal_isConnected 0 0 queued"
    by (simp add: AnySignal_isConnected_def queued_facts)
  have "queue_ok disconnected = queue_ok queued"
    unfolding disconnected_def by (rule queue_ok_frame) (simp_all add: Link_disconnect_frame)
  with queue_ok_queued have ok: "queue_ok disconnected"
    by simp
  have l: "links disconnected = links wired"
    by (simp add: disconnected_def Link_disconnect_frame queued_facts)
  have 1: "fst (Link_disconnect (Some 0) (Some 0) queued)"
    using c by (simp only: Link_disconnect_result)
  have 2: "\<not> Link_isConnected (Some 0) (Some 0) disconnected"
    unfolding disconnected_def Link_isConnected_def
    by (simp only: Link_disconnect_result option.case) simp
  have 3: "links disconnected 0 = Some \<lparr>m_signal = 0, m_slot = 0,
        m_slotFunction = Bind_staticCastFunction Base_class 0 (Some 0)\<rparr>"
    by (simp add: l wired_facts)
  have 4: "0 \<in> m_links_slot (slots disconnected 0)"
    unfolding disconnected_def by (simp add: Link_disconnect_frame queued_facts)
  have 5: "m_queue (emitted disconnected) = [\<lparr>msg = Some msg_Base, link = Some 0\<rparr>]"
    unfolding disconnected_def by (simp add: Link_disconnect_frame queued_facts)
  have 6: "invoked disconnected = []"
    unfolding disconnected_def by (simp add: Link_disconnect_frame queued_facts)
  have 7: "run_log disconnected = Some [Invocation 0 0 msg_Base (Some 0)]"
    unfolding run_log_ok [OF ok] 5 6 by (simp add: handled_wired [OF l])
  from 1 2 3 4 5 7 show ?thesis
    by (intro conjI)
qed

subsection \<open>Consistency is kept by the operations\<close>

text \<open>
  The example program is consistent at start, and \<open>connect\<close>, \<open>disconnect\<close>, \<open>emit\<close>,
  \<open>setName\<close>, \<open>processNext\<close> with slot methods that do nothing, and the destruction
  of a live link keep a consistent state consistent; on a consistent state they raise
  no error. So the queue is in order in every state these operations reach.
\<close>

lemma set_map_assign: "set (map_assign k v xs) \<subseteq> insert (k, v) (set xs)"
  by (induction xs) (auto split: if_splits)

lemma emit_frame:
  "m_queue (emitted (AnySignal_emit sg p s)) =
     rev (map (\<lambda>it. \<lparr>msg = p, link = Some (snd it)\<rparr>) (m_links (signals s sg)))
       @ m_queue (emitted s)"
  "signals (AnySignal_emit sg p s) = signals s"
  "links (AnySignal_emit sg p s) = links s"
  "next_link (AnySignal_emit sg p s) = next_link s"
proof -
  have f: "signals (foldl (\<lambda>s' e. Emitted_add e s') t es) = signals t
      \<and> links (foldl (\<lambda>s' e. Emitted_add e s') t es) = links t
      \<and> next_link (foldl (\<lambda>s' e. Emitted_add e s') t es) = next_link t" for t es
    by (induction es arbitrary: t) (simp_all add: Emitted_add_def Let_def split: option.splits)
  have e: "AnySignal_emit sg p s = foldl (\<lambda>s' e. Emitted_add e s') s
      (map (\<lambda>it. \<lparr>msg = p, link = Some (snd it)\<rparr>) (m_links (signals s sg)))"
    by (simp add: AnySignal_emit_def foldl_map)
  show "m_queue (emitted (AnySignal_emit sg p s)) =
     rev (map (\<lambda>it. \<lparr>msg = p, link = Some (snd it)\<rparr>) (m_links (signals s sg)))
       @ m_queue (emitted s)"
    unfolding e by (rule queue_after_adds)
  show "signals (AnySignal_emit sg p s) = signals s" "links (AnySignal_emit sg p s) = links s"
    "next_link (AnySignal_emit sg p s) = next_link s"
    unfolding e by (simp_all add: f)
qed

lemma consistent_startup: "consistent startup"
  by (simp add: consistent_def queue_ok_def startup_def Signal_def)

lemma consistent_parts:
  assumes "consistent s"
  shows "queue_ok s"
    and "it \<in> set (m_links (signals s g)) \<Longrightarrow>
      \<exists>L. links s (snd it) = Some L \<and> m_signal L = g \<and> m_slot L = fst it"
    and "links s a = Some K \<Longrightarrow> a < next_link s"
  using assms unfolding consistent_def by blast+

lemma consistent_emit:
  assumes c: "consistent s"
  shows "consistent (AnySignal_emit sg p s)"
proof -
  let ?t = "AnySignal_emit sg p s"
  have 1: "queue_ok ?t"
    unfolding queue_ok_def list_all_iff emit_frame(1)
  proof (intro ballI)
    fix e
    assume "e \<in> set (rev (map (\<lambda>it. \<lparr>msg = p, link = Some (snd it)\<rparr>)
        (m_links (signals s sg))) @ m_queue (emitted s))"
    then consider (new) it where "it \<in> set (m_links (signals s sg))"
        and "e = \<lparr>msg = p, link = Some (snd it)\<rparr>"
      | (old) "e \<in> set (m_queue (emitted s))"
      by auto
    then show "live ?t (link e)"
    proof cases
      case new
      with consistent_parts(2) [OF c new(1)] show ?thesis
        by (auto simp: live_def emit_frame)
    next
      case old
      with consistent_parts(1) [OF c] have "live s (link e)"
        by (simp add: queue_ok_def list_all_iff)
      then show ?thesis
        by (simp add: live_links [of ?t s] emit_frame)
    qed
  qed
  have 2: "\<forall>g. \<forall>it \<in> set (m_links (signals ?t g)).
      \<exists>L. links ?t (snd it) = Some L \<and> m_signal L = g \<and> m_slot L = fst it"
    using c by (simp add: emit_frame consistent_def)
  have 3: "\<forall>l \<in> dom (links ?t). l < next_link ?t"
    using c by (simp add: emit_frame consistent_def)
  from 1 2 3 show ?thesis
    unfolding consistent_def by (intro conjI)
qed

lemma consistent_connect: "consistent s \<Longrightarrow> consistent (snd (Link_connect a b f s))"
proof (cases a; cases b)
  fix sg sl assume c: "consistent s" and a: "a = Some sg" and b: "b = Some sl"
  show ?thesis
  proof (cases "AnySignal_isConnected sg sl s")
    case True
    then show ?thesis using c by (simp add: a b Link_connect_connected)
  next
    case False
    let ?l = "next_link s"
    let ?s = "snd (Link_connect (Some sg) (Some sl) f s)"
    have fresh: "links s ?l = None"
      using consistent_parts(3) [OF c, of ?l] by (cases "links s ?l") auto
    have k: "links ?s = (links s)(?l \<mapsto> Link_ctor sg sl f s)"
      and n: "next_link ?s = Suc ?l"
      and e: "emitted ?s = emitted s"
      and m: "m_links (signals ?s g) =
          (if g = sg then map_assign sl ?l (m_links (signals s sg)) else m_links (signals s g))"
      for g
      using False
      by (simp_all add: Link_connect_def new_Link_def AnySlot_connect_def AnySignal_connect_def)
    have 1: "queue_ok ?s"
      using consistent_parts(1) [OF c]
      by (auto simp: queue_ok_def e k list_all_iff live_def split: option.splits)
    have 2: "\<exists>L. links ?s (snd it) = Some L \<and> m_signal L = g \<and> m_slot L = fst it"
      if "it \<in> set (m_links (signals ?s g))" for g it
    proof (cases "it = (sl, ?l) \<and> g = sg")
      case True
      then show ?thesis by (simp add: k Link_ctor_def)
    next
      case False
      with that set_map_assign [of sl ?l "m_links (signals s sg)"]
      have "it \<in> set (m_links (signals s g))"
        by (auto simp: m split: if_splits)
      from consistent_parts(2) [OF c this]
      obtain L where L: "links s (snd it) = Some L \<and> m_signal L = g \<and> m_slot L = fst it"
        by blast
      with fresh have "snd it \<noteq> ?l" by auto
      with L show ?thesis by (simp add: k)
    qed
    have 3: "\<forall>l \<in> dom (links ?s). l < next_link ?s"
    proof
      fix x assume "x \<in> dom (links ?s)"
      then have "x = ?l \<or> (\<exists>K. links s x = Some K)"
        by (auto simp: k split: if_splits)
      then show "x < next_link ?s"
        unfolding n using consistent_parts(3) [OF c, of x] by (auto simp: less_Suc_eq)
    qed
    from 1 2 3 show ?thesis
      unfolding consistent_def a b by blast
  qed
qed (simp_all add: Link_connect_def)

lemma consistent_disconnect: "consistent s \<Longrightarrow> consistent (snd (Link_disconnect a b s))"
  unfolding consistent_def
  by (cases a; cases b)
     (auto simp: Link_disconnect_def AnySignal_disconnect_def Let_def map_erase_def
       queue_ok_def live_def list_all_iff split: option.splits)

lemma consistent_setName:
  "consistent s \<Longrightarrow> consistent (AnySignal_setName a n s) \<and> consistent (AnySlot_setName a n s)"
  unfolding consistent_def
  by (auto simp: AnySignal_setName_def AnySignal_unregisterName_def AnySlot_setName_def
      AnySlot_unregisterName_def Let_def queue_ok_def live_def list_all_iff
      split: option.splits)

lemma consistent_processNext:
  assumes c: "consistent s"
  shows "\<exists>b s'. Message_processNext no_effect s = Inr (b, s') \<and> consistent s'"
proof (cases "m_queue (emitted s)" rule: rev_cases)
  case Nil
  then have "Message_processNext no_effect s = Inr (False, s)"
    by (simp add: Message_processNext_def Emitted_processNext_def Emitted_empty_def)
  with c show ?thesis by blast
next
  case (snoc q e)
  from c snoc have l: "live s (link e)"
    by (simp add: consistent_def queue_ok_def)
  let ?s = "s\<lparr>emitted := (emitted s)\<lparr>m_queue := q\<rparr>, invoked := invoked s @ handled s e\<rparr>"
  have "consistent ?s"
    using c snoc by (simp add: consistent_def queue_ok_def live_links [of ?s s])
  with processNext_step [OF snoc l] show ?thesis by blast
qed

lemma consistent_Link_dtor:
  assumes c: "consistent s" and L: "links s l = Some L"
  shows "\<exists>s'. Link_dtor l s = Inr s' \<and> consistent s'"
proof -
  let ?q = "filter (\<lambda>e. link e \<noteq> Some l) (m_queue (emitted s))"
  obtain s' where d: "Link_dtor l s = Inr s'"
    and q: "m_queue (emitted s') = ?q"
    and k: "links s' = (links s)(l := None)"
    and n: "next_link s' = next_link s"
    and m: "\<And>g. m_links (signals s' g) =
        (if g = m_signal L then filter (\<lambda>it. fst it \<noteq> m_slot L) (m_links (signals s g))
         else m_links (signals s g))"
    using L
    by (simp add: Link_dtor_def Let_def AnySlot_disconnect_def AnySignal_disconnect_def
        Emitted_erase_def map_erase_def)
  have 1: "queue_ok s'"
    using consistent_parts(1) [OF c]
    by (auto simp: queue_ok_def q k list_all_iff live_def split: option.splits)
  have 2: "\<exists>K. links s' (snd it) = Some K \<and> m_signal K = g \<and> m_slot K = fst it"
    if "it \<in> set (m_links (signals s' g))" for g it
  proof -
    from that have i: "it \<in> set (m_links (signals s g))"
      and x: "\<not> (g = m_signal L \<and> fst it = m_slot L)"
      by (auto simp: m split: if_splits)
    from consistent_parts(2) [OF c i]
    obtain K where K: "links s (snd it) = Some K \<and> m_signal K = g \<and> m_slot K = fst it"
      by blast
    with x L have "snd it \<noteq> l" by auto
    with K show ?thesis by (simp add: k)
  qed
  have 3: "\<forall>a \<in> dom (links s'). a < next_link s'"
  proof
    fix x assume "x \<in> dom (links s')"
    then have "\<exists>K. links s x = Some K"
      by (auto simp: k split: if_splits)
    then show "x < next_link s'"
      unfolding n using consistent_parts(3) [OF c, of x] by auto
  qed
  from 1 2 3 have "consistent s'"
    unfolding consistent_def by blast
  with d show ?thesis by blast
qed

end
